theory Spec2Isabelle
  imports Main
begin

section \<open>Python values and exceptions\<close>

text \<open>
  Exceptions of the source are values. \<open>ValueError\<close>, \<open>TypeError\<close>, \<open>KeyError\<close> and
  \<open>IOError\<close> are Python's own, \<open>InvalidStateError\<close> is the class of errors.py and
  \<open>ReError\<close> is \<open>re.error\<close>, the exception of Python's \<open>re\<close> module.
\<close>

datatype error = ValueError | TypeError | KeyError | InvalidStateError | IOError | ReError

text \<open>
  An \<open>Entry\<close> object of data.py: \<open>oid\<close> is the identity of the instance (what Python's
  \<open>is\<close> compares), \<open>e_primary_type\<close> and \<open>e_items\<close> are the attributes set by
  \<open>Entry.__init__\<close>. The values of the items dict are strings or \<open>None\<close>.
\<close>

record entry =
  oid :: nat
  e_primary_type :: string
  e_items :: "(string \<times> string option) list"

datatype pyval = PyNone | PyStr string | PyInt int | PyEntry entry | PyList "pyval list"

section \<open>Characters and regular expressions\<close>

text \<open>
  A string is a list of code points below 256. On such characters \<open>re.IGNORECASE\<close>
  compares the lower-case forms, and the characters that have one are the letters A to Z
  and the Latin-1 capitals from code point 192 to 222, the multiplication sign 215 apart;
  each lies 32 below its lower-case form.
\<close>

definition lower_char :: "char \<Rightarrow> char" where
  "lower_char c =
     (let n = (of_char c :: nat)
      in if (65 \<le> n \<and> n \<le> 90) \<or> (192 \<le> n \<and> n \<le> 222 \<and> n \<noteq> 215)
         then char_of (n + 32) else c)"

definition newline :: char where
  "newline = CHR 0x0A"

text \<open>\<open>s.replace(c, r)\<close> for a one-character \<open>c\<close>.\<close>

definition replace_char :: "char \<Rightarrow> string \<Rightarrow> string \<Rightarrow> string" where
  "replace_char c r s = concat (map (\<lambda>x. if x = c then r else [x]) s)"

text \<open>
  The regular expressions that \<open>expand_epath\<close> compiles from a pattern whose only special
  characters are the wildcards are made of literal characters (compared ignoring case),
  \<open>.\<close> (any character but a newline) and \<open>.*?\<close> (a lazy run of such characters).
  \<open>re_tokens\<close> reads such an expression and answers \<open>None\<close> for any other.
\<close>

datatype tok = Lit char | Dot | StarLazy

definition re_special :: "char \<Rightarrow> bool" where
  "re_special c = (c = CHR 0x5C \<or> c \<in> set ''^$*+?{}[]|()'')"

definition re_atom :: "char \<Rightarrow> tok list option \<Rightarrow> tok list option" where
  "re_atom c rest =
     (if re_special c then None
      else map_option (\<lambda>ts. (if c = CHR ''.'' then Dot else Lit c) # ts) rest)"

fun re_tokens :: "string \<Rightarrow> tok list option" where
  "re_tokens (c # a # b # r) =
     (if c = CHR ''.'' \<and> a = CHR ''*'' \<and> b = CHR ''?''
      then map_option (\<lambda>ts. StarLazy # ts) (re_tokens r)
      else re_atom c (re_tokens (a # b # r)))"
| "re_tokens (c # r) = re_atom c (re_tokens r)"
| "re_tokens [] = Some []"

text \<open>
  \<open>re.match(pat, s)\<close> succeeds when the pattern matches at the start of \<open>s\<close>; the
  rest of \<open>s\<close> is free.
\<close>

fun re_match :: "tok list \<Rightarrow> string \<Rightarrow> bool" where
  "re_match [] s = True"
| "re_match (Lit c # ts) [] = False"
| "re_match (Lit c # ts) (x # xs) = (lower_char x = lower_char c \<and> re_match ts xs)"
| "re_match (Dot # ts) [] = False"
| "re_match (Dot # ts) (x # xs) = (x \<noteq> newline \<and> re_match ts xs)"
| "re_match (StarLazy # ts) [] = re_match ts []"
| "re_match (StarLazy # ts) (x # xs) =
     (re_match ts (x # xs) \<or> (x \<noteq> newline \<and> re_match (StarLazy # ts) xs))"

text \<open>
  \<open>re.compile(s, re.IGNORECASE)\<close> followed by \<open>re.match\<close>: the outcome is the exception
  that compiling raises, or the test that matching performs on a key. For an expression
  of the kind above the test is \<open>re_match\<close>. For every other expression the outcome is
  that of Python's \<open>re\<close> module, which is no code of this program: it is the parameter
  \<open>re_lib\<close>, of which nothing is assumed.
\<close>

definition re_compile ::
  "(string \<Rightarrow> error + (string \<Rightarrow> bool)) \<Rightarrow> string \<Rightarrow> error + (string \<Rightarrow> bool)" where
  "re_compile re_lib s =
     (case re_tokens s of
        Some ts \<Rightarrow> Inr (re_match ts)
      | None \<Rightarrow> re_lib s)"

section \<open>The database\<close>

text \<open>
  \<open>Database.__init__\<close> sets the five attributes; \<open>contents\<close> is a dict, kept here as
  an association list in insertion order. \<open>epaths\<close> starts as an empty dict and becomes
  the list of keys in \<open>initialize\<close>.
\<close>

record database =
  site_url :: string
  contents :: "(string \<times> pyval) list"
  epaths :: "string list"
  total_entries :: int
  initialized :: bool

definition Database_init :: "string \<Rightarrow> database" where
  "Database_init url =
     \<lparr>site_url = url, contents = [], epaths = [], total_entries = - 1, initialized = False\<rparr>"

fun dict_set :: "(string \<times> pyval) list \<Rightarrow> string \<Rightarrow> pyval \<Rightarrow> (string \<times> pyval) list" where
  "dict_set [] k v = [(k, v)]"
| "dict_set ((k', v') # kvs) k v = (if k' = k then (k, v) # kvs else (k', v') # dict_set kvs k v)"

definition getitem :: "database \<Rightarrow> string \<Rightarrow> error + pyval" where
  "getitem db key = (case map_of (contents db) key of Some v \<Rightarrow> Inr v | None \<Rightarrow> Inl KeyError)"

definition setitem :: "database \<Rightarrow> string \<Rightarrow> pyval \<Rightarrow> database" where
  "setitem db key v = db\<lparr>contents := dict_set (contents db) key v\<rparr>"

definition keys :: "database \<Rightarrow> string list" where
  "keys db = map fst (contents db)"

definition primary_type :: "string \<Rightarrow> string" where
  "primary_type epath = takeWhile (\<lambda>c. c \<noteq> CHR ''/'') epath"

definition get_epaths :: "database \<Rightarrow> error + string list" where
  "get_epaths db = (if \<not> initialized db then Inl InvalidStateError else Inr (epaths db))"

text \<open>
  The loop of \<open>expand_epath\<close>: the pattern is compiled again for every key, so a store
  without keys never compiles it.
\<close>

definition epath_regex :: "string \<Rightarrow> string" where
  "epath_regex epath = replace_char CHR ''*'' ''.*?'' (replace_char CHR ''?'' ''.'' epath)"

fun filter_epaths ::
  "(string \<Rightarrow> error + (string \<Rightarrow> bool)) \<Rightarrow> string \<Rightarrow> string list \<Rightarrow> error + string list" where
  "filter_epaths re_lib epath [] = Inr []"
| "filter_epaths re_lib epath (ep # eps) =
     (case re_compile re_lib (epath_regex epath) of
        Inl e \<Rightarrow> Inl e
      | Inr pat \<Rightarrow>
          (case filter_epaths re_lib epath eps of
             Inl e \<Rightarrow> Inl e
           | Inr r \<Rightarrow> Inr (if pat ep then ep # r else r)))"

definition expand_epath ::
  "(string \<Rightarrow> error + (string \<Rightarrow> bool)) \<Rightarrow> database \<Rightarrow> string \<Rightarrow> error + string list" where
  "expand_epath re_lib db epath =
     (if CHR ''*'' \<in> set epath \<or> CHR ''?'' \<in> set epath
      then (case get_epaths db of
              Inl e \<Rightarrow> Inl e
            | Inr eps \<Rightarrow> filter_epaths re_lib epath eps)
      else (case get_epaths db of
              Inl e \<Rightarrow> Inl e
            | Inr eps \<Rightarrow> if epath \<in> set eps then Inr [epath] else Inl ValueError))"

text \<open>
  \<open>get_data\<close>. Its argument is a string or \<open>None\<close>. The first test is
  \<open>not isinstance(epath, str)\<close>; the branch \<open>epath is None\<close> comes after it.
\<close>

fun all_values :: "database \<Rightarrow> string list \<Rightarrow> error + pyval list" where
  "all_values db [] = Inr []"
| "all_values db (ep # eps) =
     (case getitem db ep of
        Inl e \<Rightarrow> Inl e
      | Inr v \<Rightarrow> (case all_values db eps of Inl e \<Rightarrow> Inl e | Inr vs \<Rightarrow> Inr (v # vs)))"

definition flat_value :: "database \<Rightarrow> string \<Rightarrow> pyval list" where
  "flat_value db fe =
     (case getitem db fe of
        Inr (PyList xs) \<Rightarrow> xs
      | Inr v \<Rightarrow> [v]
      | Inl e \<Rightarrow> [PyNone])"

definition get_data ::
  "(string \<Rightarrow> error + (string \<Rightarrow> bool)) \<Rightarrow> database \<Rightarrow> string option \<Rightarrow> error + pyval" where
  "get_data re_lib db epath =
     (case epath of
        None \<Rightarrow> Inl TypeError
      | Some ep \<Rightarrow>
          (if epath = None
           then (case get_epaths db of
                   Inl e \<Rightarrow> Inl e
                 | Inr eps \<Rightarrow> (case all_values db eps of Inl e \<Rightarrow> Inl e | Inr vs \<Rightarrow> Inr (PyList vs)))
           else (case expand_epath re_lib db ep of
                   Inl e \<Rightarrow> Inl e
                 | Inr filtered_epaths \<Rightarrow>
                     if length filtered_epaths > 1
                     then Inr (PyList (concat (map (flat_value db) filtered_epaths)))
                     else (case map_of (contents db) ep of
                             Some v \<Rightarrow> Inr v
                           | None \<Rightarrow> Inr PyNone))))"

section \<open>Entry and its class cache\<close>

text \<open>
  \<open>__entry_classcache__\<close> is a module-level dict; \<open>heap\<close> holds it together with
  the next free object identity. \<open>Entry(items, primary_type)\<close> runs \<open>__new__\<close>, which looks
  the cache up under \<open>items[primary_type]\<close>, and then \<open>__init__\<close>, which returns at once
  on an instance that already has \<open>items\<close> and otherwise sets the attributes and stores
  the instance in the cache under \<open>primary_type\<close>.
\<close>

record heap =
  entry_classcache :: "string option \<rightharpoonup> entry"
  next_oid :: nat

definition empty_heap :: heap where
  "empty_heap = \<lparr>entry_classcache = Map.empty, next_oid = 0\<rparr>"

definition Entry :: "(string \<times> string option) list \<Rightarrow> string \<Rightarrow> heap \<Rightarrow> (error + entry) \<times> heap" where
  "Entry its ptype h =
     (case map_of its ptype of
        None \<Rightarrow> (Inl KeyError, h)
      | Some v \<Rightarrow>
          (case entry_classcache h v of
             Some obj \<Rightarrow> (Inr obj, h)
           | None \<Rightarrow>
               (let obj = \<lparr>oid = next_oid h, e_primary_type = ptype, e_items = its\<rparr>
                in (Inr obj,
                    h\<lparr>entry_classcache := (entry_classcache h)(Some ptype \<mapsto> obj),
                      next_oid := Suc (next_oid h)\<rparr>))))"

text \<open>
  \<open>Entry.__eq__(self, other)\<close> is \<open>self.items[self.primary_type] == other[self.primary_type]\<close>;
  subscripting anything but an entry with a string raises \<open>TypeError\<close>.
\<close>

definition entry_eq :: "entry \<Rightarrow> pyval \<Rightarrow> error + bool" where
  "entry_eq self other =
     (case map_of (e_items self) (e_primary_type self) of
        None \<Rightarrow> Inl KeyError
      | Some a \<Rightarrow>
          (case other of
             PyEntry obj \<Rightarrow>
               (case map_of (e_items obj) (e_primary_type self) of
                  None \<Rightarrow> Inl KeyError
                | Some b \<Rightarrow> Inr (a = b))
           | _ \<Rightarrow> Inl TypeError))"

text \<open>
  \<open>e in xs\<close> on a list compares each item with \<open>e\<close>, by identity first and by
  \<open>==\<close> otherwise; an item that is no entry hands the comparison over to \<open>e.__eq__\<close>.
\<close>

fun list_contains :: "pyval list \<Rightarrow> entry \<Rightarrow> error + bool" where
  "list_contains [] e = Inr False"
| "list_contains (item # xs) e =
     (case item of
        PyEntry it \<Rightarrow>
          (if oid it = oid e then Inr True
           else (case entry_eq it (PyEntry e) of
                   Inl er \<Rightarrow> Inl er
                 | Inr b \<Rightarrow> if b then Inr True else list_contains xs e))
      | _ \<Rightarrow>
          (case entry_eq e item of
             Inl er \<Rightarrow> Inl er
           | Inr b \<Rightarrow> if b then Inr True else list_contains xs e))"

definition py_contains :: "pyval \<Rightarrow> entry \<Rightarrow> error + bool" where
  "py_contains cur e =
     (case cur of
        PyList xs \<Rightarrow> list_contains xs e
      | PyEntry c \<Rightarrow> (case e_items c of [] \<Rightarrow> Inr False | kv # _ \<Rightarrow> entry_eq e (PyStr (fst kv)))
      | _ \<Rightarrow> Inl TypeError)"

definition py_iadd :: "pyval \<Rightarrow> entry list \<Rightarrow> error + pyval" where
  "py_iadd cur u = (case cur of PyList xs \<Rightarrow> Inr (PyList (xs @ map PyEntry u)) | _ \<Rightarrow> Inl TypeError)"

section \<open>Element trees\<close>

text \<open>
  An element of the parsed page, with the part of the ElementTree interface that
  \<open>get_defs\<close> uses: \<open>get\<close>, \<open>findall\<close>, \<open>find\<close> and \<open>findtext\<close> on a child tag, and
  \<open>itertext\<close>.
\<close>

datatype elem =
  Elem (etag: string) (attrib: "(string \<times> string) list") (etext: "string option")
       (children: "elem list") (etail: "string option")

definition get_attr :: "elem \<Rightarrow> string \<Rightarrow> string option" where
  "get_attr e k = map_of (attrib e) k"

definition findall_tag :: "elem \<Rightarrow> string \<Rightarrow> elem list" where
  "findall_tag e t = filter (\<lambda>c. etag c = t) (children e)"

definition find_tag :: "elem \<Rightarrow> string \<Rightarrow> elem option" where
  "find_tag e t = (case findall_tag e t of [] \<Rightarrow> None | c # _ \<Rightarrow> Some c)"

definition text_or_empty :: "elem \<Rightarrow> string" where
  "text_or_empty e = (case etext e of None \<Rightarrow> [] | Some s \<Rightarrow> s)"

definition findtext_tag :: "elem \<Rightarrow> string \<Rightarrow> string option" where
  "findtext_tag e t = map_option text_or_empty (find_tag e t)"

definition opt_text :: "string option \<Rightarrow> string list" where
  "opt_text t = (case t of None \<Rightarrow> [] | Some s \<Rightarrow> if s = [] then [] else [s])"

fun itertext :: "elem \<Rightarrow> string list" where
  "itertext (Elem t a tx cs tail_text) =
     opt_text tx @ concat (map (\<lambda>c. itertext c @ opt_text (etail c)) cs)"

definition py_str :: "string option \<Rightarrow> string" where
  "py_str v = (case v of None \<Rightarrow> ''None'' | Some s \<Rightarrow> s)"

section \<open>The version markers\<close>

text \<open>
  \<open>SINCE_REGEX\<close> and \<open>DEPRECATED_REGEX\<close> are a literal marker followed by the group
  digits, dot, digits, searched ignoring case; \<open>re_search_version\<close> gives the group of
  the leftmost match.
\<close>

definition is_digit :: "char \<Rightarrow> bool" where
  "is_digit c = (c \<in> set ''0123456789'')"

definition match_version :: "string \<Rightarrow> string option" where
  "match_version s =
     (let a = takeWhile is_digit s; r = dropWhile is_digit s
      in if a = [] then None
         else (case r of
                 [] \<Rightarrow> None
               | d # r' \<Rightarrow>
                   if d \<noteq> CHR ''.'' then None
                   else (let b = takeWhile is_digit r'
                         in if b = [] then None else Some (a @ ''.'' @ b))))"

definition starts_with_ci :: "string \<Rightarrow> string \<Rightarrow> bool" where
  "starts_with_ci m s =
     (length m \<le> length s \<and> map lower_char (take (length m) s) = map lower_char m)"

fun re_search_version :: "string \<Rightarrow> string \<Rightarrow> string option" where
  "re_search_version m [] = None"
| "re_search_version m (x # xs) =
     (case (if starts_with_ci m (x # xs) then match_version (drop (length m) (x # xs)) else None) of
        Some v \<Rightarrow> Some v
      | None \<Rightarrow> re_search_version m xs)"

section \<open>DataExtractor.get_defs\<close>

text \<open>
  The local variables of \<open>get_defs\<close> that live across the iterations of its loops:
  the result dict \<open>entries\<close> (keyed by the class attribute of the list, a string or
  \<open>None\<close>), \<open>last_link\<close> and \<open>desc\<close>. \<open>desc\<close> is unbound until its first assignment;
  every iteration assigns it before reading it.
\<close>

record extraction =
  entries :: "(string option \<times> entry list) list"
  last_link :: string
  desc :: string

fun entries_append ::
  "(string option \<times> entry list) list \<Rightarrow> string option \<Rightarrow> entry \<Rightarrow> (string option \<times> entry list) list" where
  "entries_append [] k e = [(k, [e])]"
| "entries_append ((k', es) # r) k e =
     (if k' = k then (k', es @ [e]) # r else (k', es) # entries_append r k e)"

fun tt_names :: "elem list \<Rightarrow> string \<times> string \<Rightarrow> string \<times> string" where
  "tt_names [] acc = acc"
| "tt_names (tt # tts) (tt_name, tt_classname) =
     tt_names tts
       (if get_attr tt ''class'' = Some ''descname'' then (text_or_empty tt, tt_classname)
        else if get_attr tt ''class'' = Some ''descclassname'' then (tt_name, text_or_empty tt)
        else (tt_name, tt_classname))"

definition dt_link_of :: "string \<Rightarrow> elem \<Rightarrow> string \<Rightarrow> error + string \<times> string" where
  "dt_link_of url dt last_seen =
     (case find_tag dt ''a'' of
        Some a \<Rightarrow>
          (case get_attr a ''href'' of
             None \<Rightarrow> Inl TypeError
           | Some href \<Rightarrow> Inr (url @ href, url @ href))
      | None \<Rightarrow> Inr (last_seen, last_seen))"

definition get_defs_dt ::
  "string \<Rightarrow> elem \<Rightarrow> nat \<Rightarrow> nat \<Rightarrow> elem \<Rightarrow> extraction \<Rightarrow> heap \<Rightarrow> (error + extraction) \<times> heap" where
  "get_defs_dt url dl dtslen i dt st h =
     (let dt_id = get_attr dt ''id'';
          names = tt_names (findall_tag dt ''tt'') ([], [])
      in case dt_link_of url dt (last_link st) of
           Inl e \<Rightarrow> (Inl e, h)
         | Inr (dt_link, last_seen) \<Rightarrow>
             (let d = (if Suc i = dtslen
                       then (case find_tag dl ''dd'' of
                               None \<Rightarrow> []
                             | Some dd \<Rightarrow> concat (itertext dd))
                       else desc st);
                  since = (case re_search_version ''New in version '' d of
                             Some v \<Rightarrow> v | None \<Rightarrow> ''0.1'');
                  depr = (case re_search_version ''Deprecated since version '' d of
                            Some v \<Rightarrow> v | None \<Rightarrow> [])
              in case Entry [(''id'', dt_id), (''name'', Some (fst names)),
                             (''classname'', Some (snd names)), (''description'', Some d),
                             (''since'', Some since), (''deprecated'', Some depr),
                             (''link'', Some dt_link)] ''id'' h of
                   (Inl e, h') \<Rightarrow> (Inl e, h')
                 | (Inr en, h') \<Rightarrow>
                     (Inr (st\<lparr>entries := entries_append (entries st) (get_attr dl ''class'') en,
                              last_link := last_seen, desc := d\<rparr>), h')))"

fun get_defs_dts ::
  "string \<Rightarrow> elem \<Rightarrow> nat \<Rightarrow> nat \<Rightarrow> elem list \<Rightarrow> extraction \<Rightarrow> heap \<Rightarrow> (error + extraction) \<times> heap" where
  "get_defs_dts url dl dtslen i [] st h = (Inr st, h)"
| "get_defs_dts url dl dtslen i (dt # dts) st h =
     (case get_defs_dt url dl dtslen i dt st h of
        (Inl e, h') \<Rightarrow> (Inl e, h')
      | (Inr st', h') \<Rightarrow> get_defs_dts url dl dtslen (Suc i) dts st' h')"

definition get_defs_dl :: "string \<Rightarrow> elem \<Rightarrow> extraction \<Rightarrow> heap \<Rightarrow> (error + extraction) \<times> heap" where
  "get_defs_dl url dl st h =
     (let dts = findall_tag dl ''dt'';
          dtslen = length dts;
          st1 = (if dtslen > 1
                 then st\<lparr>desc := ''see '' @ py_str (findtext_tag (last dts) ''tt'')\<rparr>
                 else st)
      in get_defs_dts url dl dtslen 0 dts st1 h)"

fun get_defs_dls :: "string \<Rightarrow> elem list \<Rightarrow> extraction \<Rightarrow> heap \<Rightarrow> (error + extraction) \<times> heap" where
  "get_defs_dls url [] st h = (Inr st, h)"
| "get_defs_dls url (dl # dls) st h =
     (case get_defs_dl url dl st h of
        (Inl e, h') \<Rightarrow> (Inl e, h')
      | (Inr st', h') \<Rightarrow> get_defs_dls url dls st' h')"

text \<open>
  Reading the page, parsing it and \<open>root.findall(self.xpath)\<close> are the work of the
  network and of the XML library: \<open>page\<close> is their outcome, the list of \<open>dl\<close> elements
  or the exception raised on the way.
\<close>

definition get_defs ::
  "string \<Rightarrow> error + elem list \<Rightarrow> heap \<Rightarrow> (error + (string option \<times> entry list) list) \<times> heap" where
  "get_defs url page h =
     (case page of
        Inl e \<Rightarrow> (Inl e, h)
      | Inr dls \<Rightarrow>
          (case get_defs_dls url dls \<lparr>entries = [], last_link = [], desc = []\<rparr> h of
             (Inl e, h') \<Rightarrow> (Inl e, h')
           | (Inr st, h') \<Rightarrow> (Inr (entries st), h')))"

section \<open>SphinxDatabase.initialize\<close>

definition REGISTRY_links :: "string list" where
  "REGISTRY_links =
     [''config.html'', ''domains.html'', ''builders.html'', ''markup/inline.html'',
      ''markup/toctree.html'', ''markup/para.html'', ''markup/code.html'', ''ext/api.html'',
      ''ext/appapi.html'', ''ext/autodoc.html'', ''ext/autosummary.html'',
      ''ext/builderapi.html'', ''ext/coverage.html'', ''ext/doctest.html'',
      ''ext/extlinks.html'', ''ext/graphviz.html'', ''ext/ifconfig.html'',
      ''ext/inheritance.html'', ''ext/intersphinx.html'', ''ext/math.html'',
      ''ext/oldcmarkup.html'', ''ext/refcounting.html'', ''ext/todo.html'',
      ''ext/tutorial.html'', ''ext/viewcode.html'', ''templating.html'']"

text \<open>
  What the site answers: \<open>parsed_version\<close> is the outcome of building the metadata
  extractor and calling \<open>get_sphinx_version\<close> (a version, \<open>None\<close>, or the exception of a
  failed read), \<open>fetch_page url\<close> the outcome of reading and parsing the page at \<open>url\<close>.
\<close>

record env =
  parsed_version :: "error + string option"
  fetch_page :: "string \<Rightarrow> error + elem list"

fun unique_entries :: "entry list \<Rightarrow> pyval \<Rightarrow> error + entry list" where
  "unique_entries [] cur_entries = Inr []"
| "unique_entries (e # es) cur_entries =
     (case py_contains cur_entries e of
        Inl er \<Rightarrow> Inl er
      | Inr b \<Rightarrow>
          (case unique_entries es cur_entries of
             Inl er \<Rightarrow> Inl er
           | Inr u \<Rightarrow> Inr (if b then u else e # u)))"

text \<open>The loop \<open>for _def in defs\<close>; an exception leaves the store as it is at that point.\<close>

fun merge_defs :: "(string option \<times> entry list) list \<Rightarrow> database \<Rightarrow> error option \<times> database" where
  "merge_defs [] db = (None, db)"
| "merge_defs ((d, es) # rest) db =
     (case d of
        None \<Rightarrow> (Some TypeError, db)
      | Some c \<Rightarrow>
          (let key = ''data/type/'' @ c
           in if key \<in> set (keys db)
              then (case getitem db key of
                      Inl er \<Rightarrow> (Some er, db)
                    | Inr cur_entries \<Rightarrow>
                        (case unique_entries es cur_entries of
                           Inl er \<Rightarrow> (Some er, db)
                         | Inr u \<Rightarrow>
                             (case py_iadd cur_entries u of
                                Inl er \<Rightarrow> (Some er, db)
                              | Inr v \<Rightarrow>
                                  merge_defs rest
                                    ((setitem db key v)
                                       \<lparr>total_entries := total_entries db + int (length u)\<rparr>))))
              else merge_defs rest
                     ((setitem db key (PyList (map PyEntry es)))
                        \<lparr>total_entries := total_entries db + int (length es)\<rparr>)))"

fun merge_links ::
  "string list \<Rightarrow> (string \<Rightarrow> error + elem list) \<Rightarrow> database \<Rightarrow> heap \<Rightarrow> error option \<times> database \<times> heap" where
  "merge_links [] fetch db h = (None, db, h)"
| "merge_links (link # ls) fetch db h =
     (let url = site_url db @ ''/'' @ link
      in case get_defs url (fetch url) h of
           (Inl er, h') \<Rightarrow> (Some er, db, h')
         | (Inr defs, h') \<Rightarrow>
             (case merge_defs defs db of
                (Some er, db') \<Rightarrow> (Some er, db', h')
              | (None, db') \<Rightarrow> merge_links ls fetch db' h'))"

definition finish_initialize :: "database \<Rightarrow> database" where
  "finish_initialize db =
     (let t = total_entries db + 1;
          db1 = setitem (db\<lparr>total_entries := t\<rparr>) ''metadata/stats/total_entries'' (PyInt t)
      in db1\<lparr>epaths := keys db1, initialized := True\<rparr>)"

text \<open>
  \<open>initialize\<close> answers the exception it raises, if any, with the store and the entry
  cache as they are then. Only \<open>KeyError\<close> is caught around the loop over the links.
\<close>

definition initialize :: "env \<Rightarrow> database \<Rightarrow> heap \<Rightarrow> error option \<times> database \<times> heap" where
  "initialize ev db h =
     (if \<not> initialized db
      then (case parsed_version ev of
              Inl er \<Rightarrow> (Some er, db, h)
            | Inr ver \<Rightarrow>
                (let db1 = setitem db ''metadata/sphinx/site_url'' (PyStr (site_url db @ ''/index.html''));
                     db2 = setitem db1 ''metadata/sphinx/version''
                             (case ver of None \<Rightarrow> PyNone | Some v \<Rightarrow> PyStr v);
                     db3 = db2\<lparr>total_entries := 2\<rparr>
                 in case merge_links REGISTRY_links (fetch_page ev) db3 h of
                      (None, db4, h') \<Rightarrow> (None, finish_initialize db4, h')
                    | (Some er, db4, h') \<Rightarrow>
                        if er = KeyError then (None, finish_initialize db4, h')
                        else (Some er, db4, h')))
      else (None, db, h))"

section \<open>The writers\<close>

definition check_database :: "database option \<Rightarrow> error + database" where
  "check_database db =
     (case db of
        None \<Rightarrow> Inl ValueError
      | Some d \<Rightarrow> if \<not> initialized d then Inl ValueError else Inr d)"

text \<open>
  \<open>created\<close> is the outcome of \<open>create_path(os.path.realpath(outdir))\<close>: the path, or the
  \<open>IOError\<close> of a directory that cannot be made.
\<close>

record writer =
  w_database :: database
  w_outdir :: string

definition Writer_init :: "database option \<Rightarrow> error + string \<Rightarrow> error + writer" where
  "Writer_init db created =
     (case check_database db of
        Inl e \<Rightarrow> Inl e
      | Inr d \<Rightarrow>
          (case created of
             Inl e \<Rightarrow> Inl e
           | Inr path \<Rightarrow> Inr \<lparr>w_database = d, w_outdir = path\<rparr>))"

definition TextMateWriter_init :: "database option \<Rightarrow> error + string \<Rightarrow> error + writer" where
  "TextMateWriter_init db created = Writer_init db created"

definition ListWriter_init :: "database option \<Rightarrow> error + string \<Rightarrow> error + writer" where
  "ListWriter_init db created = Writer_init db created"

definition CSVWriter_init :: "database option \<Rightarrow> error + string \<Rightarrow> error + writer" where
  "CSVWriter_init db created = Writer_init db created"

text \<open>
  \<open>HTMLWriter.__init__\<close> goes on, after the base class, to read the version from the
  store and to load its two templates from files; \<open>templates\<close> is the outcome of the
  loading.
\<close>

definition HTMLWriter_init ::
  "(string \<Rightarrow> error + (string \<Rightarrow> bool)) \<Rightarrow> database option \<Rightarrow> error + string \<Rightarrow> error + unit
     \<Rightarrow> error + writer" where
  "HTMLWriter_init re_lib db created templates =
     (case Writer_init db created of
        Inl e \<Rightarrow> Inl e
      | Inr w \<Rightarrow>
          (case get_data re_lib (w_database w) (Some ''metadata/sphinx/version'') of
             Inl e \<Rightarrow> Inl e
           | Inr sphinx_version \<Rightarrow>
               (case templates of
                  Inl e \<Rightarrow> Inl e
                | Inr u \<Rightarrow> Inr w)))"

section \<open>The specification's notions\<close>

text \<open>
  Glob matching as the specification words it: \<open>*\<close> is zero or more of any character,
  \<open>?\<close> exactly one of any character, every other character stands for itself, ignoring
  case, and the whole key is matched.
\<close>

fun glob_match :: "string \<Rightarrow> string \<Rightarrow> bool" where
  "glob_match [] s = (s = [])"
| "glob_match (p # ps) [] = (p = CHR ''*'' \<and> glob_match ps [])"
| "glob_match (p # ps) (x # xs) =
     (if p = CHR ''*'' then glob_match ps (x # xs) \<or> glob_match (p # ps) xs
      else (p = CHR ''?'' \<or> lower_char p = lower_char x) \<and> glob_match ps xs)"

text \<open>
  The entries stored under the keys of primary type \<open>data\<close>, and the specification's
  count for \<open>metadata/stats/total_entries\<close>: the distinct ids among them, the two
  metadata keys, and the stats key.
\<close>

definition entries_at :: "string \<times> pyval \<Rightarrow> pyval list" where
  "entries_at kv =
     (if primary_type (fst kv) = ''data''
      then (case snd kv of PyList xs \<Rightarrow> xs | _ \<Rightarrow> [])
      else [])"

definition data_entries :: "database \<Rightarrow> pyval list" where
  "data_entries db = concat (map entries_at (contents db))"

definition id_of :: "pyval \<Rightarrow> string option option" where
  "id_of v = (case v of PyEntry e \<Rightarrow> map_of (e_items e) ''id'' | _ \<Rightarrow> None)"

definition spec_total_entries :: "database \<Rightarrow> int" where
  "spec_total_entries db = int (length (remdups (map id_of (data_entries db)))) + 2 + 1"

text \<open>
  \<open>get_defs\<close> builds its entries with the primary type \<open>id\<close> and an \<open>id\<close> item;
  \<open>entry_id\<close> reads that item. \<open>heap_wf\<close> says that the entry cache holds such
  entries only, as the empty cache does.
\<close>

definition wf_entry :: "entry \<Rightarrow> bool" where
  "wf_entry e = (e_primary_type e = ''id'' \<and> map_of (e_items e) ''id'' \<noteq> None)"

definition entry_id :: "entry \<Rightarrow> string option option" where
  "entry_id e = map_of (e_items e) ''id''"

definition heap_wf :: "heap \<Rightarrow> bool" where
  "heap_wf h = (\<forall>k e. entry_classcache h k = Some e \<longrightarrow> wf_entry e)"

text \<open>
  The lists of entries that the pages yield in the course of \<open>initialize\<close>, in the order
  of the links and up to the first page that cannot be read, and the condition that none
  of these lists holds the same id twice.
\<close>

fun run_batches ::
  "string list \<Rightarrow> (string \<Rightarrow> error + elem list) \<Rightarrow> string \<Rightarrow> heap
     \<Rightarrow> (string option \<times> entry list) list list" where
  "run_batches [] fetch site h = []"
| "run_batches (link # ls) fetch site h =
     (case get_defs (site @ ''/'' @ link) (fetch (site @ ''/'' @ link)) h of
        (Inl er, h') \<Rightarrow> []
      | (Inr defs, h') \<Rightarrow> defs # run_batches ls fetch site h')"

definition batch_distinct :: "(string option \<times> entry list) list \<Rightarrow> bool" where
  "batch_distinct defs = list_all (\<lambda>ces. distinct (map entry_id (snd ces))) defs"

definition batch_wf :: "(string option \<times> entry list) list \<Rightarrow> bool" where
  "batch_wf defs = list_all (\<lambda>ces. list_all wf_entry (snd ces)) defs"

text \<open>
  The condition on a store that every list under a key of primary type \<open>data\<close> holds
  entries of the kind above, no two with the same id.
\<close>

definition wf_item :: "pyval \<Rightarrow> bool" where
  "wf_item v = (case v of PyEntry e \<Rightarrow> wf_entry e | _ \<Rightarrow> False)"

definition data_list_distinct :: "string \<times> pyval \<Rightarrow> bool" where
  "data_list_distinct kv =
     (primary_type (fst kv) = ''data'' \<longrightarrow>
        (case snd kv of
           PyList vs \<Rightarrow> list_all wf_item vs \<and> distinct (map id_of vs)
         | _ \<Rightarrow> False))"

definition data_lists_distinct :: "database \<Rightarrow> bool" where
  "data_lists_distinct db = list_all data_list_distinct (contents db)"

text \<open>
  \<open>e in db['data/type/' + c]\<close>: the entry is found, by identity or by equality, in the
  list stored for the category.
\<close>

definition found_in_store :: "database \<Rightarrow> string \<Rightarrow> entry \<Rightarrow> bool" where
  "found_in_store db c e =
     (case map_of (contents db) (''data/type/'' @ c) of
        Some (PyList vs) \<Rightarrow> list_contains vs e = Inr True
      | _ \<Rightarrow> False)"

text \<open>
  The number of distinct ids under each key of primary type \<open>data\<close>, summed over the keys.
\<close>

definition unique_per_key :: "database \<Rightarrow> nat" where
  "unique_per_key db =
     length (concat (map (\<lambda>kv. remdups (map id_of (entries_at kv))) (contents db)))"

text \<open>
  The token that \<open>expand_epath\<close> makes of one character of its pattern, and the patterns
  whose only special characters are the two wildcards.
\<close>

definition tok_of :: "char \<Rightarrow> tok" where
  "tok_of c = (if c = CHR ''*'' then StarLazy
               else if c = CHR ''?'' \<or> c = CHR ''.'' then Dot
               else Lit c)"

definition plain_pattern :: "string \<Rightarrow> bool" where
  "plain_pattern p = (\<forall>c \<in> set p. re_special c \<longrightarrow> c = CHR ''*'' \<or> c = CHR ''?'')"

section \<open>A small site\<close>

text \<open>
  A site whose page config.html holds one definition list of class \<open>describe\<close>: two
  terms without id share one description, and only the first has a permalink. The other
  pages hold no definition list.
\<close>

definition ex_dt1 :: elem where
  "ex_dt1 = Elem ''dt'' [] None
              [Elem ''tt'' [(''class'', ''descname'')] (Some ''alpha'') [] None,
               Elem ''a'' [(''class'', ''headerlink''), (''href'', ''#alpha'')] (Some ''P'') [] None]
              None"

definition ex_dt2 :: elem where
  "ex_dt2 = Elem ''dt'' [] None
              [Elem ''tt'' [(''class'', ''descname'')] (Some ''beta'') [] None]
              None"

definition ex_dl :: elem where
  "ex_dl = Elem ''dl'' [(''class'', ''describe'')] None
             [ex_dt1, ex_dt2,
              Elem ''dd'' [] None [Elem ''p'' [] (Some ''New in version 1.4. Some details.'') [] None] None]
             None"

definition ex_env :: env where
  "ex_env = \<lparr>parsed_version = Inr (Some ''1.1''),
             fetch_page = (\<lambda>url. if url = ''http://s/config.html'' then Inr [ex_dl] else Inr [])\<rparr>"

definition ex_entry1 :: entry where
  "ex_entry1 = \<lparr>oid = 0, e_primary_type = ''id'',
                e_items = [(''id'', None), (''name'', Some ''alpha''), (''classname'', Some []),
                           (''description'', Some ''see beta''), (''since'', Some ''0.1''),
                           (''deprecated'', Some []), (''link'', Some ''http://s/config.html#alpha'')]\<rparr>"

definition ex_entry2 :: entry where
  "ex_entry2 = \<lparr>oid = 1, e_primary_type = ''id'',
                e_items = [(''id'', None), (''name'', Some ''beta''), (''classname'', Some []),
                           (''description'', Some ''New in version 1.4. Some details.''),
                           (''since'', Some ''1.4''), (''deprecated'', Some []),
                           (''link'', Some ''http://s/config.html#alpha'')]\<rparr>"

definition ex_db :: database where
  "ex_db = \<lparr>site_url = ''http://s'',
            contents = [(''metadata/sphinx/site_url'', PyStr ''http://s/index.html''),
                        (''metadata/sphinx/version'', PyStr ''1.1''),
                        (''data/type/describe'', PyList [PyEntry ex_entry1, PyEntry ex_entry2]),
                        (''metadata/stats/total_entries'', PyInt 5)],
            epaths = [''metadata/sphinx/site_url'', ''metadata/sphinx/version'',
                      ''data/type/describe'', ''metadata/stats/total_entries''],
            total_entries = 5,
            initialized = True\<rparr>"

text \<open>
  A stand-in for the \<open>re\<close> module in the examples, none of which compiles an expression
  that reaches it.
\<close>

definition ex_re_lib :: "string \<Rightarrow> error + (string \<Rightarrow> bool)" where
  "ex_re_lib s = Inl ReError"

text \<open>
  A definition list of two functions that share one description. The first term has a
  permalink; the second has none and shows its module before its name, as Sphinx renders
  a qualified name.
\<close>

definition ex_fun_dl :: elem where
  "ex_fun_dl = Elem ''dl'' [(''class'', ''function'')] None
     [Elem ''dt'' [(''id'', ''g'')] None
        [Elem ''tt'' [(''class'', ''descname'')] (Some ''g'') [] None,
         Elem ''a'' [(''class'', ''headerlink''), (''href'', ''#g'')] (Some ''P'') [] None]
        None,
      Elem ''dt'' [(''id'', ''mod.f'')] None
        [Elem ''tt'' [(''class'', ''descclassname'')] (Some ''mod.'') [] None,
         Elem ''tt'' [(''class'', ''descname'')] (Some ''f'') [] None]
        None,
      Elem ''dd'' [] None [Elem ''p'' [] (Some ''Both do the same.'') [] None] None]
     None"

text \<open>
  A second site: config.html defines the role \<open>role-a\<close>, domains.html defines \<open>role-a\<close>
  again and \<open>role-b\<close>; the other pages hold no definition list.
\<close>

definition ex_role :: "string \<Rightarrow> elem" where
  "ex_role n = Elem ''dt'' [(''id'', ''role-'' @ n)] None
                 [Elem ''tt'' [(''class'', ''descname'')] (Some n) [] None,
                  Elem ''a'' [(''class'', ''headerlink''), (''href'', ''#role-'' @ n)] (Some ''P'') [] None]
                 None"

definition ex_roles :: "string list \<Rightarrow> elem" where
  "ex_roles ns = Elem ''dl'' [(''class'', ''role'')] None
                   (map ex_role ns @ [Elem ''dd'' [] (Some ''A role.'') [] None])
                   None"

definition ex2_env :: env where
  "ex2_env = \<lparr>parsed_version = Inr (Some ''1.1''),
              fetch_page = (\<lambda>url. if url = ''http://s/config.html'' then Inr [ex_roles [''a'']]
                                   else if url = ''http://s/domains.html'' then Inr [ex_roles [''a'', ''b'']]
                                   else Inr [])\<rparr>"

section \<open>Reading from the store\<close>

text \<open>
  Claim C2: on every initialized store, \<open>get_data(None)\<close> returns every stored value in
  stored order. The code does not: \<open>None\<close> is no string, so the first test of
  \<open>get_data\<close> raises \<open>TypeError\<close> before the branch for \<open>None\<close> is reached. On the
  store of the small site:
\<close>

theorem get_data_None_raises:
  "initialized ex_db \<and> get_data re_lib ex_db None = Inl TypeError
   \<and> get_data re_lib ex_db None \<noteq> Inr (PyList (map snd (contents ex_db)))"
  by (simp add: get_data_def ex_db_def)

text \<open>
  Before \<open>initialize\<close> has completed, key enumeration, key expansion and a query with
  a string all raise \<open>InvalidStateError\<close>.
\<close>

lemma reads_before_initialize:
  "\<not> initialized db \<Longrightarrow>
     get_epaths db = Inl InvalidStateError
     \<and> expand_epath re_lib db p = Inl InvalidStateError
     \<and> get_data re_lib db (Some p) = Inl InvalidStateError"
  by (simp add: get_epaths_def expand_epath_def get_data_def)

text \<open>
  Claim C8: on a store that has not completed \<open>initialize\<close>, every read operation fails
  with \<open>InvalidStateError\<close>. The query with \<open>None\<close> does not: on a store fresh from its
  constructor it raises \<open>TypeError\<close>, for the reason given under C2.
\<close>

theorem get_data_None_uninitialized:
  "\<not> initialized (Database_init ''http://s'')
   \<and> get_data re_lib (Database_init ''http://s'') None = Inl TypeError
   \<and> get_data re_lib (Database_init ''http://s'') None \<noteq> Inl InvalidStateError"
  by (simp add: get_data_def Database_init_def)

text \<open>
  Claim C3: a wildcard pattern that matches more than one key gives the flattened values;
  one that matches exactly one key gives that key's raw value. The second half fails in
  the code: with at most one match \<open>get_data\<close> looks the pattern itself up in
  \<open>contents\<close>, not the key it matched, and answers \<open>None\<close>. On the store of the small
  site the pattern \<open>data/type/describ?\<close> matches the one key \<open>data/type/describe\<close>, which
  holds two entries:
\<close>

theorem get_data_single_wildcard_match:
  "initialized ex_db
   \<and> expand_epath re_lib ex_db ''data/type/describ?'' = Inr [''data/type/describe'']
   \<and> getitem ex_db ''data/type/describe'' = Inr (PyList [PyEntry ex_entry1, PyEntry ex_entry2])
   \<and> get_data re_lib ex_db (Some ''data/type/describ?'') = Inr PyNone"
  by code_simp

section \<open>The entry cache\<close>

text \<open>
  Claim C1: two constructions of an Entry with the same id give the very same instance.
  The code does not: \<open>__new__\<close> looks the cache up under the id, but \<open>__init__\<close> stores
  the instance under the name of the primary type, so the lookup misses. From an empty
  cache, two constructions with the id \<open>role-a\<close> give two instances, each with its own
  items:
\<close>

theorem Entry_same_id_two_instances:
  "fst (Entry [(''id'', Some ''role-a''), (''name'', Some ''first'')] ''id'' empty_heap)
     = Inr \<lparr>oid = 0, e_primary_type = ''id'',
            e_items = [(''id'', Some ''role-a''), (''name'', Some ''first'')]\<rparr>
   \<and> fst (Entry [(''id'', Some ''role-a''), (''name'', Some ''second'')] ''id''
            (snd (Entry [(''id'', Some ''role-a''), (''name'', Some ''first'')] ''id'' empty_heap)))
     = Inr \<lparr>oid = 1, e_primary_type = ''id'',
            e_items = [(''id'', Some ''role-a''), (''name'', Some ''second'')]\<rparr>"
  by (simp add: Entry_def empty_heap_def Let_def)

section \<open>The writers and the store they are given\<close>

text \<open>
  Claim C10: constructing any of the four writers fails when the store handle is \<open>None\<close>
  or the store is not initialized, so a writer only exists over an initialized store.
  Every constructor calls \<open>check_database\<close> first, which raises \<open>ValueError\<close> in both
  cases, whatever the outcome of creating the output directory or loading the templates
  would be.
\<close>

theorem writers_check_database:
  "((db = None \<or> (\<exists>d. db = Some d \<and> \<not> initialized d)) \<longrightarrow>
      TextMateWriter_init db created = Inl ValueError
      \<and> ListWriter_init db created = Inl ValueError
      \<and> CSVWriter_init db created = Inl ValueError
      \<and> HTMLWriter_init re_lib db created templates = Inl ValueError)
   \<and> (\<forall>w. (TextMateWriter_init db created = Inr w \<or> ListWriter_init db created = Inr w
            \<or> CSVWriter_init db created = Inr w
            \<or> HTMLWriter_init re_lib db created templates = Inr w)
           \<longrightarrow> db = Some (w_database w) \<and> initialized (w_database w))"
  by (auto simp: TextMateWriter_init_def ListWriter_init_def CSVWriter_init_def
      HTMLWriter_init_def Writer_init_def check_database_def
      split: option.splits sum.splits if_splits)

theorem writers_check_database_witness:
  "TextMateWriter_init None (Inr ''out'') = Inl ValueError
   \<and> ListWriter_init None (Inr ''out'') = Inl ValueError
   \<and> CSVWriter_init (Some (Database_init ''http://s'')) (Inr ''out'') = Inl ValueError
   \<and> HTMLWriter_init ex_re_lib (Some (Database_init ''http://s'')) (Inr ''out'') (Inr ())
       = Inl ValueError
   \<and> CSVWriter_init (Some ex_db) (Inr ''out'') = Inr \<lparr>w_database = ex_db, w_outdir = ''out''\<rparr>
   \<and> initialized ex_db"
proof -
  have a: "\<not> initialized (Database_init ''http://s'')"
    by (simp add: Database_init_def)
  have i: "initialized ex_db"
    by (simp add: ex_db_def)
  have b: "CSVWriter_init (Some ex_db) (Inr ''out'') = Inr \<lparr>w_database = ex_db, w_outdir = ''out''\<rparr>"
    by (simp add: CSVWriter_init_def Writer_init_def check_database_def i)
  have n: "TextMateWriter_init None (Inr ''out'') = Inl ValueError
           \<and> ListWriter_init None (Inr ''out'') = Inl ValueError"
    using writers_check_database [of None "Inr ''out''" ex_re_lib "Inr ()"] by simp
  have u: "CSVWriter_init (Some (Database_init ''http://s'')) (Inr ''out'') = Inl ValueError
           \<and> HTMLWriter_init ex_re_lib (Some (Database_init ''http://s'')) (Inr ''out'') (Inr ())
               = Inl ValueError"
    using writers_check_database [of "Some (Database_init ''http://s'')" "Inr ''out''" ex_re_lib "Inr ()"] a
    by simp
  from n u b i show ?thesis by simp
qed

section \<open>Key expansion\<close>

text \<open>
  The regular expression made of a pattern whose only special characters are the
  wildcards reads as the list of the tokens of the pattern's characters, so that the
  \<open>re\<close> module's answer on other expressions plays no part for such a pattern.
\<close>

lemma re_tokens_Cons:
  "re_tokens (c # r) =
     (if c = CHR ''.'' \<and> take 2 r = ''*?''
      then map_option (\<lambda>ts. StarLazy # ts) (re_tokens (drop 2 r))
      else re_atom c (re_tokens r))"
proof (cases r)
  case Nil
  then show ?thesis by simp
next
  case (Cons a r1)
  then show ?thesis by (cases r1) auto
qed

lemma epath_regex_Nil: "epath_regex [] = []"
  by (simp add: epath_regex_def replace_char_def)

lemma epath_regex_Cons:
  "epath_regex (c # p) =
     (if c = CHR ''*'' then ''.*?'' else if c = CHR ''?'' then ''.'' else [c]) @ epath_regex p"
  by (simp add: epath_regex_def replace_char_def)

lemma epath_regex_head: "take 2 (epath_regex p) \<noteq> ''*?''"
  by (cases p) (auto simp: epath_regex_Nil epath_regex_Cons)

lemma re_tokens_epath_regex:
  "plain_pattern p \<Longrightarrow> re_tokens (epath_regex p) = Some (map tok_of p)"
proof (induction p)
  case Nil
  then show ?case by (simp add: epath_regex_Nil)
next
  case (Cons c p)
  then have ih: "re_tokens (epath_regex p) = Some (map tok_of p)"
    and c: "re_special c \<longrightarrow> c = CHR ''*'' \<or> c = CHR ''?''"
    by (simp_all add: plain_pattern_def)
  consider "c = CHR ''*''" | "c = CHR ''?''" | "c \<noteq> CHR ''*''" "c \<noteq> CHR ''?''" by blast
  then show ?case
  proof cases
    case 1
    then show ?thesis by (simp add: epath_regex_Cons ih tok_of_def)
  next
    case 2
    then show ?thesis
      by (simp add: epath_regex_Cons re_tokens_Cons epath_regex_head ih tok_of_def
          re_atom_def re_special_def)
  next
    case 3
    with c have "\<not> re_special c" by blast
    with 3 show ?thesis
      by (simp add: epath_regex_Cons re_tokens_Cons epath_regex_head ih tok_of_def re_atom_def)
  qed
qed

lemma filter_epaths_tokens:
  "re_tokens (epath_regex p) = Some ts \<Longrightarrow>
   filter_epaths re_lib p eps = Inr (filter (re_match ts) eps)"
  by (induction eps) (auto simp: re_compile_def)

lemma ex_take_Cons:
  "(\<exists>n\<le>length (x # xs). P (take n (x # xs))) = (P [] \<or> (\<exists>m\<le>length xs. P (x # take m xs)))"
proof
  assume "\<exists>n\<le>length (x # xs). P (take n (x # xs))"
  then obtain n where n: "n \<le> length (x # xs)" "P (take n (x # xs))" by blast
  show "P [] \<or> (\<exists>m\<le>length xs. P (x # take m xs))"
  proof (cases n)
    case 0
    with n show ?thesis by simp
  next
    case (Suc m)
    with n have "m \<le> length xs" "P (x # take m xs)" by simp_all
    then show ?thesis by blast
  qed
next
  assume "P [] \<or> (\<exists>m\<le>length xs. P (x # take m xs))"
  then show "\<exists>n\<le>length (x # xs). P (take n (x # xs))"
  proof
    assume "P []"
    then have "0 \<le> length (x # xs) \<and> P (take 0 (x # xs))" by simp
    then show ?thesis by blast
  next
    assume "\<exists>m\<le>length xs. P (x # take m xs)"
    then obtain m where "m \<le> length xs" "P (x # take m xs)" by blast
    then have "Suc m \<le> length (x # xs) \<and> P (take (Suc m) (x # xs))" by simp
    then show ?thesis by blast
  qed
qed

lemma re_match_glob_prefix:
  "CHR ''.'' \<notin> set p \<Longrightarrow> newline \<notin> set k \<Longrightarrow>
   re_match (map tok_of p) k = (\<exists>n\<le>length k. glob_match p (take n k))"
proof (induction p k rule: glob_match.induct)
  case (1 s)
  then show ?case by auto
next
  case (2 p ps)
  then show ?case by (auto simp: tok_of_def)
next
  case (3 p ps x xs)
  show ?case
  proof (cases "p = CHR ''*''")
    case True
    have a: "re_match (map tok_of ps) (x # xs) = (\<exists>n\<le>length (x # xs). glob_match ps (take n (x # xs)))"
      using 3 True by simp
    have b: "re_match (map tok_of (p # ps)) xs = (\<exists>n\<le>length xs. glob_match (p # ps) (take n xs))"
      using 3 True by simp
    have x: "x \<noteq> newline" using "3.prems" by auto
    have "re_match (map tok_of (p # ps)) (x # xs) =
            (re_match (map tok_of ps) (x # xs) \<or> re_match (map tok_of (p # ps)) xs)"
      using True x by (simp add: tok_of_def)
    also have "\<dots> = (\<exists>n\<le>length (x # xs). glob_match (p # ps) (take n (x # xs)))"
      unfolding a b ex_take_Cons using True by auto
    finally show ?thesis .
  next
    case False
    have a: "re_match (map tok_of ps) xs = (\<exists>n\<le>length xs. glob_match ps (take n xs))"
      using 3 False by simp
    have x: "x \<noteq> newline" and p: "p \<noteq> CHR ''.''" using "3.prems" by auto
    have "re_match (map tok_of (p # ps)) (x # xs) =
            ((p = CHR ''?'' \<or> lower_char p = lower_char x) \<and> re_match (map tok_of ps) xs)"
      using False x p by (auto simp: tok_of_def)
    also have "\<dots> = (\<exists>n\<le>length (x # xs). glob_match (p # ps) (take n (x # xs)))"
      unfolding a ex_take_Cons using False by auto
    finally show ?thesis .
  qed
qed

lemma re_match_Lits:
  "re_match (map Lit m @ ts) k = (starts_with_ci m k \<and> re_match ts (drop (length m) k))"
proof (induction m arbitrary: k)
  case Nil
  then show ?case by (simp add: starts_with_ci_def)
next
  case (Cons c m)
  then show ?case by (cases k) (auto simp: starts_with_ci_def)
qed

lemma re_match_StarLazy_only: "re_match [StarLazy] k"
  by (induction k) auto

lemma expand_data_star:
  "initialized db \<Longrightarrow>
   expand_epath re_lib db ''data/*'' = Inr (filter (starts_with_ci ''data/'') (epaths db))"
proof -
  assume i: "initialized db"
  define pat where "pat = map Lit ''data/'' @ [StarLazy]"
  have c: "re_tokens (epath_regex ''data/*'') = Some pat"
    by (simp add: pat_def epath_regex_def replace_char_def re_atom_def re_special_def)
  have m: "re_match pat k = starts_with_ci ''data/'' k" for k
    unfolding pat_def re_match_Lits by (simp add: re_match_StarLazy_only)
  have f: "filter (re_match pat) (epaths db) = filter (starts_with_ci ''data/'') (epaths db)"
    by (rule filter_cong) (simp_all add: m)
  have "filter_epaths re_lib ''data/*'' (epaths db) = Inr (filter (re_match pat) (epaths db))"
    by (rule filter_epaths_tokens [OF c])
  then show ?thesis using i f by (simp add: expand_epath_def get_epaths_def)
qed

text \<open>
  What the code returns for a wildcard pattern: on an initialized store whose keys hold
  no newline, a pattern whose only special characters are the wildcards, and which holds
  no dot, gives the keys of which some prefix matches the pattern as a glob; and
  \<open>data/*\<close> gives the keys that begin with \<open>data/\<close>, ignoring case.
\<close>

lemma expand_epath_prefix_glob:
  assumes "initialized db"
    and "CHR ''*'' \<in> set p \<or> CHR ''?'' \<in> set p"
    and "plain_pattern p"
    and "CHR ''.'' \<notin> set p"
    and "\<forall>k \<in> set (epaths db). newline \<notin> set k"
  shows "expand_epath re_lib db p =
           Inr (filter (\<lambda>k. \<exists>n\<le>length k. glob_match p (take n k)) (epaths db))
         \<and> expand_epath re_lib db ''data/*'' = Inr (filter (starts_with_ci ''data/'') (epaths db))"
proof
  have e: "expand_epath re_lib db p = filter_epaths re_lib p (epaths db)"
    using assms(1,2) by (auto simp: expand_epath_def get_epaths_def)
  have c: "re_tokens (epath_regex p) = Some (map tok_of p)"
    using assms(3) by (rule re_tokens_epath_regex)
  have f: "filter (re_match (map tok_of p)) (epaths db) =
           filter (\<lambda>k. \<exists>n\<le>length k. glob_match p (take n k)) (epaths db)"
    by (rule filter_cong) (use assms(4,5) in \<open>simp_all add: re_match_glob_prefix\<close>)
  show "expand_epath re_lib db p =
          Inr (filter (\<lambda>k. \<exists>n\<le>length k. glob_match p (take n k)) (epaths db))"
    unfolding e using filter_epaths_tokens [OF c, of re_lib "epaths db"] f by simp
  show "expand_epath re_lib db ''data/*'' = Inr (filter (starts_with_ci ''data/'') (epaths db))"
    using assms(1) by (rule expand_data_star)
qed

text \<open>
  Claim C5: \<open>expand_epath\<close> returns exactly the keys that match the pattern as a glob,
  \<open>?\<close> standing for exactly one character. The code does not: it tests the regular
  expression of the pattern with \<open>re.match\<close>, which is content with a match at the start
  of the key, and nothing anchors the expression at the end. On the store of the small
  site the pattern \<open>data/type/desc?\<close> returns the key \<open>data/type/describe\<close> and the
  pattern \<open>meta?\<close> the three metadata keys, none of which matches as a glob.
\<close>

theorem expand_epath_matches_prefix:
  "initialized ex_db
   \<and> filter (glob_match ''data/type/desc?'') (epaths ex_db) = []
   \<and> expand_epath re_lib ex_db ''data/type/desc?'' = Inr [''data/type/describe'']
   \<and> filter (glob_match ''meta?'') (epaths ex_db) = []
   \<and> expand_epath re_lib ex_db ''meta?'' =
       Inr [''metadata/sphinx/site_url'', ''metadata/sphinx/version'', ''metadata/stats/total_entries'']"
  by code_simp

section \<open>Patterns that match nothing\<close>




section \<open>Initializing twice\<close>

lemma finish_initialize_initialized: "initialized (finish_initialize db)"
  by (simp add: finish_initialize_def Let_def)

lemma initialize_noop: "initialized db \<Longrightarrow> initialize ev db h = (None, db, h)"
  by (simp add: initialize_def)

lemma initialize_completes_initialized:
  "initialize ev db h = (None, db1, h1) \<Longrightarrow> initialized db1"
  by (auto simp: initialize_def Let_def finish_initialize_initialized
      split: if_splits sum.splits prod.splits option.splits)

text \<open>
  Claim C6: \<open>initialize\<close> is idempotent. On an initialized store it is a no-op: the store,
  and the entry cache with it, come back unchanged, whatever the site would answer. A call
  that completes leaves the store initialized, so a second call changes nothing and every
  query, \<open>get_data(None)\<close> among them, answers after two calls what it answers after one.
\<close>

theorem initialize_idempotent:
  "(initialized db \<longrightarrow> initialize ev db h = (None, db, h))
   \<and> (\<forall>db1 h1. initialize ev db h = (None, db1, h1) \<longrightarrow>
         initialized db1
         \<and> initialize ev' db1 h1 = (None, db1, h1)
         \<and> get_data re_lib (fst (snd (initialize ev' db1 h1))) q = get_data re_lib db1 q)"
proof (intro conjI impI allI)
  assume "initialized db"
  then show "initialize ev db h = (None, db, h)" by (rule initialize_noop)
next
  fix db1 h1
  assume a: "initialize ev db h = (None, db1, h1)"
  then show i: "initialized db1" by (rule initialize_completes_initialized)
  then show n: "initialize ev' db1 h1 = (None, db1, h1)" by (rule initialize_noop)
  show "get_data re_lib (fst (snd (initialize ev' db1 h1))) q = get_data re_lib db1 q"
    by (simp add: n)
qed

theorem initialize_idempotent_witness:
  "initialize ex_env ex_db empty_heap = (None, ex_db, empty_heap)
   \<and> initialized (fst (snd (initialize ex_env (Database_init ''http://s'') empty_heap)))
   \<and> get_data ex_re_lib (fst (snd (initialize ex_env
                  (fst (snd (initialize ex_env (Database_init ''http://s'') empty_heap)))
                  (snd (snd (initialize ex_env (Database_init ''http://s'') empty_heap)))))) None
       = get_data ex_re_lib (fst (snd (initialize ex_env (Database_init ''http://s'') empty_heap))) None"
proof -
  let ?r = "initialize ex_env (Database_init ''http://s'') empty_heap"
  have i: "initialized ex_db" by (simp add: ex_db_def)
  have a: "initialize ex_env ex_db empty_heap = (None, ex_db, empty_heap)"
    using initialize_idempotent [of ex_db ex_env empty_heap ex_env ex_re_lib None] i by simp
  have "fst ?r = None" by code_simp
  then have c: "?r = (None, fst (snd ?r), snd (snd ?r))"
    by (metis prod.collapse)
  from initialize_idempotent [of "Database_init ''http://s''" ex_env empty_heap ex_env ex_re_lib None] c
  have "initialized (fst (snd ?r))
        \<and> get_data ex_re_lib (fst (snd (initialize ex_env (fst (snd ?r)) (snd (snd ?r))))) None
            = get_data ex_re_lib (fst (snd ?r)) None"
    by blast
  with a show ?thesis by simp
qed

section \<open>Counting entries\<close>

text \<open>
  The running total of \<open>initialize\<close> follows the number of entries stored under the data
  keys: every assignment to a data key adds to both the same amount, and the metadata keys
  hold no entries.
\<close>

lemma primary_type_data_key: "primary_type (''data/type/'' @ c) = ''data''"
  by (simp add: primary_type_def)

lemma entries_at_dict_set:
  "length (concat (map entries_at (dict_set kvs k v)))
     + length (case map_of kvs k of None \<Rightarrow> [] | Some old \<Rightarrow> entries_at (k, old))
   = length (concat (map entries_at kvs)) + length (entries_at (k, v))"
  by (induction kvs) auto

lemma data_entries_setitem:
  "int (length (data_entries ((setitem db k v)\<lparr>total_entries := t\<rparr>)))
     + int (length (case map_of (contents db) k of None \<Rightarrow> [] | Some old \<Rightarrow> entries_at (k, old)))
   = int (length (data_entries db)) + int (length (entries_at (k, v)))"
  using entries_at_dict_set [of "contents db" k v]
  by (simp add: data_entries_def setitem_def flip: of_nat_add)

lemma data_entries_setitem_metadata:
  "primary_type k \<noteq> ''data'' \<Longrightarrow> data_entries (setitem db k v) = data_entries db"
proof -
  assume p: "primary_type k \<noteq> ''data''"
  have "concat (map entries_at (dict_set kvs k v)) = concat (map entries_at kvs)" for kvs
    using p by (induction kvs) (auto simp: entries_at_def)
  then show ?thesis by (simp add: data_entries_def setitem_def)
qed

lemma map_of_dict_set: "map_of (dict_set kvs k v) k = Some v"
  by (induction kvs) auto

lemma map_of_not_key: "k \<notin> set (keys db) \<Longrightarrow> map_of (contents db) k = None"
  by (simp add: keys_def map_of_eq_None_iff)

lemma merge_defs_count:
  "merge_defs defs db = (r, db') \<Longrightarrow>
   total_entries db = c + int (length (data_entries db)) \<Longrightarrow>
   total_entries db' = c + int (length (data_entries db'))"
proof (induction defs arbitrary: db)
  case Nil
  then show ?case by simp
next
  case (Cons a defs)
  obtain d es where a: "a = (d, es)" by (cases a)
  show ?case
  proof (cases d)
    case None
    with Cons.prems a show ?thesis by simp
  next
    case (Some cl)
    let ?key = "''data/type/'' @ cl"
    show ?thesis
    proof (cases "?key \<in> set (keys db)")
      case False
      let ?db = "(setitem db ?key (PyList (map PyEntry es)))
                   \<lparr>total_entries := total_entries db + int (length es)\<rparr>"
      from Cons.prems(1) a Some False have m: "merge_defs defs ?db = (r, db')"
        by simp
      have "int (length (data_entries ?db)) = int (length (data_entries db)) + int (length es)"
        using data_entries_setitem [where db = db and k = ?key and v = "PyList (map PyEntry es)"
                and t = "total_entries db + int (length es)"] map_of_not_key [OF False]
        by (simp add: entries_at_def primary_type_data_key [simplified])
      with Cons.prems(2) have "total_entries ?db = c + int (length (data_entries ?db))"
        by simp
      with m show ?thesis by (rule Cons.IH)
    next
      case True
      show ?thesis
      proof (cases "map_of (contents db) ?key")
        case None
        with Cons.prems a Some True show ?thesis by (simp add: getitem_def)
      next
        case cur: (Some cur_entries)
        show ?thesis
        proof (cases "unique_entries es cur_entries")
          case (Inl er)
          with Cons.prems a Some True cur show ?thesis by (simp add: getitem_def)
        next
          case (Inr u)
          show ?thesis
          proof (cases cur_entries)
            case (PyList xs)
            let ?v = "PyList (xs @ map PyEntry u)"
            let ?db = "(setitem db ?key ?v)\<lparr>total_entries := total_entries db + int (length u)\<rparr>"
            from Cons.prems(1) a Some True cur Inr PyList have m: "merge_defs defs ?db = (r, db')"
              by (simp add: getitem_def py_iadd_def)
            have "int (length (data_entries ?db)) = int (length (data_entries db)) + int (length u)"
              using data_entries_setitem [where db = db and k = ?key and v = ?v
                      and t = "total_entries db + int (length u)"] cur PyList
              by (simp add: entries_at_def primary_type_data_key [simplified])
            with Cons.prems(2) have "total_entries ?db = c + int (length (data_entries ?db))"
              by simp
            with m show ?thesis by (rule Cons.IH)
          qed (use Cons.prems a Some True cur Inr in \<open>simp_all add: getitem_def py_iadd_def\<close>)
        qed
      qed
    qed
  qed
qed

lemma merge_links_count:
  "merge_links ls fetch db h = (r, db', h') \<Longrightarrow>
   total_entries db = c + int (length (data_entries db)) \<Longrightarrow>
   total_entries db' = c + int (length (data_entries db'))"
proof (induction ls arbitrary: db h)
  case Nil
  then show ?case by simp
next
  case (Cons link ls)
  let ?url = "site_url db @ ''/'' @ link"
  obtain res h1 where g: "get_defs ?url (fetch ?url) h = (res, h1)" by (cases "get_defs ?url (fetch ?url) h")
  show ?case
  proof (cases res)
    case (Inl er)
    with Cons.prems g show ?thesis by simp
  next
    case (Inr defs)
    obtain r1 db1 where m: "merge_defs defs db = (r1, db1)" by (cases "merge_defs defs db")
    from m Cons.prems(2) have i: "total_entries db1 = c + int (length (data_entries db1))"
      by (rule merge_defs_count)
    show ?thesis
    proof (cases r1)
      case None
      with Cons.prems(1) g Inr m have "merge_links ls fetch db1 h1 = (r, db', h')" by simp
      then show ?thesis using i by (rule Cons.IH)
    next
      case (Some er)
      with Cons.prems(1) g Inr m have "db' = db1" by simp
      with i show ?thesis by simp
    qed
  qed
qed

lemma finish_initialize_total:
  "total_entries db = 2 + int (length (data_entries db)) \<Longrightarrow>
   getitem (finish_initialize db) ''metadata/stats/total_entries''
     = Inr (PyInt (int (length (data_entries (finish_initialize db))) + 2 + 1))"
proof -
  assume t: "total_entries db = 2 + int (length (data_entries db))"
  have p: "primary_type ''metadata/stats/total_entries'' \<noteq> ''data''"
    by (simp add: primary_type_def)
  have d: "data_entries (finish_initialize db) = data_entries db"
    using data_entries_setitem_metadata [OF p, where db = "db\<lparr>total_entries := total_entries db + 1\<rparr>"
            and v = "PyInt (total_entries db + 1)"]
    by (simp add: finish_initialize_def Let_def data_entries_def setitem_def)
  have "getitem (finish_initialize db) ''metadata/stats/total_entries'' = Inr (PyInt (total_entries db + 1))"
    by (simp add: finish_initialize_def Let_def getitem_def setitem_def map_of_dict_set)
  with t d show ?thesis by simp
qed

text \<open>
  The entries that \<open>get_defs\<close> returns are keyed by id, and so are the entries it leaves
  in the cache.
\<close>

lemma id_of_PyEntry: "id_of (PyEntry e) = entry_id e"
  by (simp add: id_of_def entry_id_def)

lemma Entry_wf:
  "heap_wf h \<Longrightarrow> map_of its ''id'' \<noteq> None \<Longrightarrow> Entry its ''id'' h = (r, h') \<Longrightarrow>
   heap_wf h' \<and> (\<forall>e. r = Inr e \<longrightarrow> wf_entry e)"
  by (auto simp: Entry_def heap_wf_def wf_entry_def Let_def split: option.splits if_splits)

lemma entries_append_wf:
  "batch_wf es \<Longrightarrow> wf_entry e \<Longrightarrow> batch_wf (entries_append es k e)"
  by (induction es) (auto simp: batch_wf_def)

lemma get_defs_dt_wf:
  "heap_wf h \<Longrightarrow> batch_wf (entries st) \<Longrightarrow> get_defs_dt url dl dtslen i dt st h = (r, h') \<Longrightarrow>
   heap_wf h' \<and> (\<forall>st'. r = Inr st' \<longrightarrow> batch_wf (entries st'))"
proof -
  assume h: "heap_wf h" and b: "batch_wf (entries st)"
    and g: "get_defs_dt url dl dtslen i dt st h = (r, h')"
  show ?thesis
  proof (cases "dt_link_of url dt (last_link st)")
    case (Inl er)
    with g h show ?thesis by (auto simp: get_defs_dt_def)
  next
    case (Inr lk)
    obtain dt_link last_seen where lk: "lk = (dt_link, last_seen)" by (cases lk)
    define d where "d = (if Suc i = dtslen
                       then (case find_tag dl ''dd'' of None \<Rightarrow> [] | Some dd \<Rightarrow> concat (itertext dd))
                       else desc st)"
    define its where "its =
      [(''id'', get_attr dt ''id''), (''name'', Some (fst (tt_names (findall_tag dt ''tt'') ([], [])))),
       (''classname'', Some (snd (tt_names (findall_tag dt ''tt'') ([], [])))),
       (''description'', Some d),
       (''since'', Some (case re_search_version ''New in version '' d of Some v \<Rightarrow> v | None \<Rightarrow> ''0.1'')),
       (''deprecated'', Some (case re_search_version ''Deprecated since version '' d of Some v \<Rightarrow> v | None \<Rightarrow> [])),
       (''link'', Some dt_link)]"
    obtain r1 h1 where E: "Entry its ''id'' h = (r1, h1)" by (cases "Entry its ''id'' h")
    have i: "map_of its ''id'' \<noteq> None" by (simp add: its_def)
    from Entry_wf [OF h i E] have h1: "heap_wf h1" and w: "\<forall>e. r1 = Inr e \<longrightarrow> wf_entry e"
      by simp_all
    have g': "(r, h') = (case r1 of
                 Inl e \<Rightarrow> (Inl e, h1)
               | Inr en \<Rightarrow> (Inr (st\<lparr>entries := entries_append (entries st) (get_attr dl ''class'') en,
                                   last_link := last_seen, desc := d\<rparr>), h1))"
      using g Inr lk E [unfolded its_def d_def]
      by (auto simp: get_defs_dt_def Let_def d_def split: sum.splits)
    show ?thesis
    proof (cases r1)
      case (Inl e)
      with g' h1 show ?thesis by auto
    next
      case (Inr en)
      with w have "wf_entry en" by simp
      with b have "batch_wf (entries_append (entries st) (get_attr dl ''class'') en)"
        by (rule entries_append_wf)
      with g' Inr h1 show ?thesis by simp
    qed
  qed
qed

lemma get_defs_dts_wf:
  "heap_wf h \<Longrightarrow> batch_wf (entries st) \<Longrightarrow> get_defs_dts url dl dtslen i dts st h = (r, h') \<Longrightarrow>
   heap_wf h' \<and> (\<forall>st'. r = Inr st' \<longrightarrow> batch_wf (entries st'))"
proof (induction dts arbitrary: i st h)
  case Nil
  then show ?case by auto
next
  case (Cons dt dts)
  obtain r1 h1 where g: "get_defs_dt url dl dtslen i dt st h = (r1, h1)"
    by (cases "get_defs_dt url dl dtslen i dt st h")
  from get_defs_dt_wf [OF Cons.prems(1,2) g]
  have h1: "heap_wf h1" and w: "\<forall>st'. r1 = Inr st' \<longrightarrow> batch_wf (entries st')" by simp_all
  show ?case
  proof (cases r1)
    case (Inl e)
    with Cons.prems(3) g h1 show ?thesis by auto
  next
    case (Inr st1)
    with w have b1: "batch_wf (entries st1)" by simp
    from Cons.prems(3) g Inr have "get_defs_dts url dl dtslen (Suc i) dts st1 h1 = (r, h')" by simp
    with h1 b1 show ?thesis by (rule Cons.IH)
  qed
qed

lemma get_defs_dls_wf:
  "heap_wf h \<Longrightarrow> batch_wf (entries st) \<Longrightarrow> get_defs_dls url dls st h = (r, h') \<Longrightarrow>
   heap_wf h' \<and> (\<forall>st'. r = Inr st' \<longrightarrow> batch_wf (entries st'))"
proof (induction dls arbitrary: st h)
  case Nil
  then show ?case by auto
next
  case (Cons dl dls)
  obtain r1 h1 where g: "get_defs_dl url dl st h = (r1, h1)" by (cases "get_defs_dl url dl st h")
  have "heap_wf h1 \<and> (\<forall>st'. r1 = Inr st' \<longrightarrow> batch_wf (entries st'))"
    using g Cons.prems(1,2) unfolding get_defs_dl_def Let_def
    by (intro get_defs_dts_wf [where h = h and i = 0]) (auto split: if_splits)
  then have h1: "heap_wf h1" and w: "\<forall>st'. r1 = Inr st' \<longrightarrow> batch_wf (entries st')" by simp_all
  show ?case
  proof (cases r1)
    case (Inl e)
    with Cons.prems(3) g h1 show ?thesis by auto
  next
    case (Inr st1)
    with w have b1: "batch_wf (entries st1)" by simp
    from Cons.prems(3) g Inr have "get_defs_dls url dls st1 h1 = (r, h')" by simp
    with h1 b1 show ?thesis by (rule Cons.IH)
  qed
qed

lemma get_defs_wf:
  "heap_wf h \<Longrightarrow> get_defs url page h = (r, h') \<Longrightarrow>
   heap_wf h' \<and> (\<forall>defs. r = Inr defs \<longrightarrow> batch_wf defs)"
proof (cases page)
  case (Inl e)
  then show "heap_wf h \<Longrightarrow> get_defs url page h = (r, h') \<Longrightarrow> ?thesis"
    by (auto simp: get_defs_def)
next
  case (Inr dls)
  assume h: "heap_wf h" and g: "get_defs url page h = (r, h')"
  let ?st = "\<lparr>entries = [], last_link = [], desc = []\<rparr>"
  obtain r1 h1 where d: "get_defs_dls url dls ?st h = (r1, h1)"
    by (cases "get_defs_dls url dls ?st h")
  have "batch_wf (entries ?st)" by (simp add: batch_wf_def)
  from get_defs_dls_wf [OF h this d]
  have "heap_wf h1" and "\<forall>st'. r1 = Inr st' \<longrightarrow> batch_wf (entries st')" by simp_all
  with g Inr d show ?thesis by (auto simp: get_defs_def split: sum.splits)
qed

text \<open>
  Merging keeps the stored lists free of repeated ids: of a page's list, \<open>unique_entries\<close>
  keeps no entry whose id is already stored under the key, and the entries it keeps have
  ids as distinct as the page's list has.
\<close>

lemma list_contains_wf:
  "list_all wf_item xs \<Longrightarrow> wf_entry e \<Longrightarrow>
   \<exists>b. list_contains xs e = Inr b \<and> (entry_id e \<in> set (map id_of xs) \<longrightarrow> b)"
proof (induction xs)
  case Nil
  then show ?case by auto
next
  case (Cons item xs)
  from Cons.prems(1) have "wf_item item" by simp
  then obtain it where it: "item = PyEntry it" "wf_entry it"
    by (cases item) (simp_all add: wf_item_def)
  from Cons have ih: "\<exists>b. list_contains xs e = Inr b \<and> (entry_id e \<in> set (map id_of xs) \<longrightarrow> b)"
    by simp
  from it(2) Cons.prems(2) obtain a b where
    ab: "map_of (e_items it) ''id'' = Some a" "map_of (e_items e) ''id'' = Some b"
      "e_primary_type it = ''id''"
    by (auto simp: wf_entry_def)
  then have eq: "entry_eq it (PyEntry e) = Inr (a = b)"
    by (simp add: entry_eq_def)
  from ab have ids: "id_of (PyEntry it) = Some a" "entry_id e = Some b"
    by (simp_all add: id_of_def entry_id_def)
  show ?case
    using ih by (auto simp: it eq ids)
qed

lemma list_contains_append:
  "list_contains xs e = Inr True \<Longrightarrow> list_contains (xs @ ys) e = Inr True"
  by (induction xs) (auto split: pyval.splits sum.splits if_splits)

lemma unique_entries_wf:
  "list_all wf_item xs \<Longrightarrow> list_all wf_entry es \<Longrightarrow> distinct (map entry_id es) \<Longrightarrow>
   \<exists>u. unique_entries es (PyList xs) = Inr u
       \<and> set u \<subseteq> set es
       \<and> distinct (map entry_id u)
       \<and> (\<forall>e \<in> set u. entry_id e \<notin> set (map id_of xs))
       \<and> (\<forall>e \<in> set es. e \<in> set u \<or> list_contains xs e = Inr True)"
proof (induction es)
  case Nil
  then show ?case by simp
next
  case (Cons e es)
  then obtain u where u: "unique_entries es (PyList xs) = Inr u" "set u \<subseteq> set es"
    "distinct (map entry_id u)" "\<forall>e \<in> set u. entry_id e \<notin> set (map id_of xs)"
    "\<forall>e \<in> set es. e \<in> set u \<or> list_contains xs e = Inr True"
    by auto
  from Cons.prems have "wf_entry e" by simp
  with Cons.prems(1) obtain b where
    b: "list_contains xs e = Inr b" "entry_id e \<in> set (map id_of xs) \<longrightarrow> b"
    using list_contains_wf by blast
  from Cons.prems(3) u(2) have n: "entry_id e \<notin> set (map entry_id u)" by auto
  show ?case
  proof (cases b)
    case True
    with b u show ?thesis by (auto simp: py_contains_def)
  next
    case False
    with b u n show ?thesis by (auto simp: py_contains_def)
  qed
qed

lemma set_dict_set: "set (dict_set kvs k v) \<subseteq> insert (k, v) (set kvs)"
  by (induction kvs) (auto split: if_splits)

lemma data_lists_distinct_setitem:
  "data_lists_distinct db \<Longrightarrow> data_list_distinct (k, v) \<Longrightarrow>
   data_lists_distinct ((setitem db k v)\<lparr>total_entries := t\<rparr>)"
  using set_dict_set [of "contents db" k v]
  by (auto simp: data_lists_distinct_def setitem_def list_all_iff)

lemma map_of_dict_set_other: "k' \<noteq> k \<Longrightarrow> map_of (dict_set kvs k v) k' = map_of kvs k'"
  by (induction kvs) auto

lemma found_in_store_setitem:
  assumes "found_in_store db c e"
    and "map_of (contents db) (''data/type/'' @ cl) = Some (PyList vs)
         \<or> map_of (contents db) (''data/type/'' @ cl) = None"
  shows "found_in_store ((setitem db (''data/type/'' @ cl) (PyList (vs @ ws)))\<lparr>total_entries := t\<rparr>) c e"
proof (cases "c = cl")
  case True
  with assms obtain "map_of (contents db) (''data/type/'' @ cl) = Some (PyList vs)"
    and "list_contains vs e = Inr True"
    by (auto simp: found_in_store_def split: option.splits pyval.splits)
  then have "list_contains (vs @ ws) e = Inr True" by (simp add: list_contains_append)
  with True show ?thesis
    using map_of_dict_set [of "contents db" "''data/type/'' @ cl" "PyList (vs @ ws)"]
    by (simp add: found_in_store_def setitem_def)
next
  case False
  then have "''data/type/'' @ c \<noteq> ''data/type/'' @ cl" by simp
  then have "map_of (dict_set (contents db) (''data/type/'' @ cl) (PyList (vs @ ws))) (''data/type/'' @ c)
               = map_of (contents db) (''data/type/'' @ c)"
    by (rule map_of_dict_set_other)
  with assms(1) show ?thesis by (simp add: found_in_store_def setitem_def)
qed

lemma found_in_store_new:
  assumes "list_all wf_item (vs @ map PyEntry u)" and "wf_entry e"
    and "e \<in> set u \<or> list_contains vs e = Inr True"
  shows "found_in_store ((setitem db (''data/type/'' @ cl) (PyList (vs @ map PyEntry u)))
                           \<lparr>total_entries := t\<rparr>) cl e"
proof -
  have "list_contains (vs @ map PyEntry u) e = Inr True"
  proof (cases "list_contains vs e = Inr True")
    case True
    then show ?thesis by (rule list_contains_append)
  next
    case False
    with assms(3) have "e \<in> set u" by simp
    then have "entry_id e \<in> set (map id_of (vs @ map PyEntry u))"
      by (force simp: id_of_PyEntry)
    with list_contains_wf [OF assms(1,2)] show ?thesis by auto
  qed
  then show ?thesis
    using map_of_dict_set [of "contents db" "''data/type/'' @ cl" "PyList (vs @ map PyEntry u)"]
    by (simp add: found_in_store_def setitem_def)
qed

lemma merge_defs_distinct:
  "merge_defs defs db = (r, db') \<Longrightarrow> data_lists_distinct db \<Longrightarrow>
   batch_wf defs \<Longrightarrow> batch_distinct defs \<Longrightarrow>
   data_lists_distinct db' \<and> site_url db' = site_url db
   \<and> (\<forall>er. r = Some er \<longrightarrow> er = TypeError)
   \<and> (r = None \<longrightarrow>
        (\<forall>c e. found_in_store db c e \<longrightarrow> found_in_store db' c e)
        \<and> (\<forall>ces \<in> set defs. \<forall>c. fst ces = Some c \<longrightarrow> (\<forall>e \<in> set (snd ces). found_in_store db' c e)))"
proof (induction defs arbitrary: db)
  case Nil
  then show ?case by simp
next
  case (Cons a defs)
  obtain d es where a: "a = (d, es)" by (cases a)
  from Cons.prems(3,4) a have es: "list_all wf_entry es" "distinct (map entry_id es)"
    and rest: "batch_wf defs" "batch_distinct defs"
    by (simp_all add: batch_wf_def batch_distinct_def)
  show ?case
  proof (cases d)
    case None
    with Cons.prems a show ?thesis by auto
  next
    case (Some cl)
    let ?key = "''data/type/'' @ cl"
    have pk: "primary_type ?key = ''data''" by (rule primary_type_data_key)
    have combine: ?thesis
      if m: "merge_defs defs db2 = (r, db')" and d2: "data_lists_distinct db2"
        and s2: "site_url db2 = site_url db"
        and mono: "\<And>c e. found_in_store db c e \<Longrightarrow> found_in_store db2 c e"
        and new: "\<And>e. e \<in> set es \<Longrightarrow> found_in_store db2 cl e"
      for db2
    proof -
      from Cons.IH [OF m d2 rest]
      have ih: "data_lists_distinct db'" "site_url db' = site_url db2"
        "\<forall>er. r = Some er \<longrightarrow> er = TypeError"
        "r = None \<longrightarrow>
           (\<forall>c e. found_in_store db2 c e \<longrightarrow> found_in_store db' c e)
           \<and> (\<forall>ces \<in> set defs. \<forall>c. fst ces = Some c \<longrightarrow> (\<forall>e \<in> set (snd ces). found_in_store db' c e))"
        by simp_all
      from ih(4) mono new
      have "r = None \<longrightarrow>
              (\<forall>c e. found_in_store db c e \<longrightarrow> found_in_store db' c e)
              \<and> (\<forall>ces \<in> set (a # defs). \<forall>c. fst ces = Some c \<longrightarrow> (\<forall>e \<in> set (snd ces). found_in_store db' c e))"
        by (auto simp: a Some)
      with ih(1,2,3) s2 show ?thesis by simp
    qed
    show ?thesis
    proof (cases "?key \<in> set (keys db)")
      case False
      let ?db = "(setitem db ?key (PyList (map PyEntry es)))
                   \<lparr>total_entries := total_entries db + int (length es)\<rparr>"
      from Cons.prems(1) a Some False have m: "merge_defs defs ?db = (r, db')" by simp
      have n: "map_of (contents db) ?key = None" using False by (rule map_of_not_key)
      have w: "list_all wf_item (map PyEntry es)"
        using es(1) by (simp add: list_all_iff wf_item_def)
      moreover have "distinct (map id_of (map PyEntry es))"
        using es(2) by (simp add: comp_def id_of_PyEntry)
      ultimately have "data_list_distinct (?key, PyList (map PyEntry es))"
        unfolding data_list_distinct_def by simp
      with Cons.prems(2) have d2: "data_lists_distinct ?db" by (rule data_lists_distinct_setitem)
      have s2: "site_url ?db = site_url db" by (simp add: setitem_def)
      have mono: "found_in_store ?db c e" if "found_in_store db c e" for c e
        using found_in_store_setitem [where cl = cl and vs = "[]" and ws = "map PyEntry es", OF that] n by simp
      have new: "found_in_store ?db cl e" if "e \<in> set es" for e
        using found_in_store_new [where vs = "[]" and u = es and e = e and db = db and cl = cl] w es(1) that
        by (simp add: list_all_iff)
      from m d2 s2 mono new show ?thesis by (rule combine)
    next
      case True
      show ?thesis
      proof (cases "map_of (contents db) ?key")
        case None
        with True show ?thesis by (simp add: keys_def map_of_eq_None_iff)
      next
        case cur: (Some cur_entries)
        then have "(?key, cur_entries) \<in> set (contents db)" by (rule map_of_SomeD)
        with Cons.prems(2) have "data_list_distinct (?key, cur_entries)"
          unfolding data_lists_distinct_def list_all_iff by blast
        with pk obtain xs where xs: "cur_entries = PyList xs" "list_all wf_item xs"
          "distinct (map id_of xs)"
          unfolding data_list_distinct_def by (cases cur_entries) simp_all
        from unique_entries_wf [OF xs(2) es] obtain u where
          u: "unique_entries es (PyList xs) = Inr u" "set u \<subseteq> set es"
          "distinct (map entry_id u)" "\<forall>e \<in> set u. entry_id e \<notin> set (map id_of xs)"
          "\<forall>e \<in> set es. e \<in> set u \<or> list_contains xs e = Inr True"
          by blast
        let ?v = "PyList (xs @ map PyEntry u)"
        let ?db = "(setitem db ?key ?v)\<lparr>total_entries := total_entries db + int (length u)\<rparr>"
        from Cons.prems(1) a Some True cur xs(1) u(1) have m: "merge_defs defs ?db = (r, db')"
          by (simp add: getitem_def py_iadd_def)
        have wu: "list_all wf_item (map PyEntry u)"
          using es(1) u(2) by (auto simp: list_all_iff wf_item_def)
        moreover have "distinct (map id_of (map PyEntry u))"
          using u(3) by (simp add: comp_def id_of_PyEntry)
        moreover have "set (map id_of xs) \<inter> set (map id_of (map PyEntry u)) = {}"
        proof -
          have e: "set (map id_of (map PyEntry u)) = entry_id ` set u"
            by (simp add: image_image id_of_PyEntry)
          show ?thesis unfolding e using u(4) by blast
        qed
        ultimately have "data_list_distinct (?key, ?v)"
          using xs(2,3) unfolding data_list_distinct_def by simp
        with Cons.prems(2) have d2: "data_lists_distinct ?db" by (rule data_lists_distinct_setitem)
        have s2: "site_url ?db = site_url db" by (simp add: setitem_def)
        have mono: "found_in_store ?db c e" if "found_in_store db c e" for c e
          using found_in_store_setitem [where cl = cl and vs = xs and ws = "map PyEntry u", OF that] cur xs(1) by simp
        have new: "found_in_store ?db cl e" if "e \<in> set es" for e
        proof -
          from that es(1) have "wf_entry e" by (simp add: list_all_iff)
          moreover from xs(2) wu have "list_all wf_item (xs @ map PyEntry u)" by simp
          moreover from that u(5) have "e \<in> set u \<or> list_contains xs e = Inr True" by blast
          ultimately show ?thesis by (intro found_in_store_new)
        qed
        from m d2 s2 mono new show ?thesis by (rule combine)
      qed
    qed
  qed
qed

lemma merge_links_distinct:
  "merge_links ls fetch db h = (r, db', h') \<Longrightarrow> heap_wf h \<Longrightarrow> data_lists_distinct db \<Longrightarrow>
   list_all batch_distinct (run_batches ls fetch (site_url db) h) \<Longrightarrow>
   data_lists_distinct db'"
proof (induction ls arbitrary: db h)
  case Nil
  then show ?case by simp
next
  case (Cons link ls)
  let ?url = "site_url db @ ''/'' @ link"
  obtain res h1 where g: "get_defs ?url (fetch ?url) h = (res, h1)"
    by (cases "get_defs ?url (fetch ?url) h")
  from get_defs_wf [OF Cons.prems(2) g]
  have h1: "heap_wf h1" and w: "\<forall>defs. res = Inr defs \<longrightarrow> batch_wf defs" by simp_all
  show ?case
  proof (cases res)
    case (Inl er)
    with Cons.prems(1,3) g show ?thesis by simp
  next
    case (Inr defs)
    with w have bw: "batch_wf defs" by simp
    from Cons.prems(4) g Inr have bd: "batch_distinct defs"
      and run: "list_all batch_distinct (run_batches ls fetch (site_url db) h1)"
      by simp_all
    obtain r1 db1 where m: "merge_defs defs db = (r1, db1)" by (cases "merge_defs defs db")
    from merge_defs_distinct [OF m Cons.prems(3) bw bd]
    have d1: "data_lists_distinct db1" and s1: "site_url db1 = site_url db" by blast+
    show ?thesis
    proof (cases r1)
      case None
      with Cons.prems(1) g Inr m have "merge_links ls fetch db1 h1 = (r, db', h')" by simp
      then show ?thesis using h1 d1 run [folded s1] by (rule Cons.IH)
    next
      case (Some er)
      with Cons.prems(1) g Inr m have "db' = db1" by simp
      with d1 show ?thesis by simp
    qed
  qed
qed

lemma unique_per_key_distinct:
  "data_lists_distinct db \<Longrightarrow> unique_per_key db = length (data_entries db)"
proof -
  assume d: "data_lists_distinct db"
  have "list_all data_list_distinct kvs \<Longrightarrow>
        length (concat (map (\<lambda>kv. remdups (map id_of (entries_at kv))) kvs))
          = length (concat (map entries_at kvs))" for kvs
  proof (induction kvs)
    case Nil
    then show ?case by simp
  next
    case (Cons kv kvs)
    then have "data_list_distinct kv" by simp
    then have "distinct (map id_of (entries_at kv))"
      by (cases "snd kv") (auto simp: data_list_distinct_def entries_at_def)
    then have "length (remdups (map id_of (entries_at kv))) = length (entries_at kv)"
      by (simp add: distinct_remdups_id)
    with Cons show ?case by simp
  qed
  with d show ?thesis
    by (simp add: data_lists_distinct_def unique_per_key_def data_entries_def)
qed

lemma finish_initialize_distinct:
  "data_lists_distinct db \<Longrightarrow> data_lists_distinct (finish_initialize db)"
proof -
  assume d: "data_lists_distinct db"
  have "data_list_distinct (''metadata/stats/total_entries'', PyInt (total_entries db + 1))"
    by (simp add: data_list_distinct_def primary_type_def)
  with d show ?thesis
    using set_dict_set [of "contents db" "''metadata/stats/total_entries''" "PyInt (total_entries db + 1)"]
    by (auto simp: finish_initialize_def Let_def data_lists_distinct_def setitem_def list_all_iff)
qed

lemma merge_links_found:
  "merge_links ls fetch db h = (r, db', h') \<Longrightarrow> heap_wf h \<Longrightarrow> data_lists_distinct db \<Longrightarrow>
   list_all batch_distinct (run_batches ls fetch (site_url db) h) \<Longrightarrow>
   r = None \<or> r = Some KeyError \<Longrightarrow>
   (\<forall>c e. found_in_store db c e \<longrightarrow> found_in_store db' c e)
   \<and> (\<forall>defs \<in> set (run_batches ls fetch (site_url db) h). \<forall>ces \<in> set defs. \<forall>c.
         fst ces = Some c \<longrightarrow> (\<forall>e \<in> set (snd ces). found_in_store db' c e))"
proof (induction ls arbitrary: db h)
  case Nil
  then show ?case by simp
next
  case (Cons link ls)
  let ?url = "site_url db @ ''/'' @ link"
  obtain res h1 where g: "get_defs ?url (fetch ?url) h = (res, h1)"
    by (cases "get_defs ?url (fetch ?url) h")
  from get_defs_wf [OF Cons.prems(2) g]
  have h1: "heap_wf h1" and w: "\<forall>defs. res = Inr defs \<longrightarrow> batch_wf defs" by simp_all
  show ?case
  proof (cases res)
    case (Inl er)
    with Cons.prems(1) g show ?thesis by simp
  next
    case (Inr defs)
    with w have bw: "batch_wf defs" by simp
    from g Inr have rb: "run_batches (link # ls) fetch (site_url db) h
                           = defs # run_batches ls fetch (site_url db) h1"
      by simp
    from Cons.prems(4) rb have bd: "batch_distinct defs"
      and run: "list_all batch_distinct (run_batches ls fetch (site_url db) h1)"
      by simp_all
    obtain r1 db1 where m: "merge_defs defs db = (r1, db1)" by (cases "merge_defs defs db")
    from merge_defs_distinct [OF m Cons.prems(3) bw bd]
    have d1: "data_lists_distinct db1" and s1: "site_url db1 = site_url db"
      and k1: "\<forall>er. r1 = Some er \<longrightarrow> er = TypeError"
      and f1: "r1 = None \<longrightarrow>
                 (\<forall>c e. found_in_store db c e \<longrightarrow> found_in_store db1 c e)
                 \<and> (\<forall>ces \<in> set defs. \<forall>c. fst ces = Some c \<longrightarrow> (\<forall>e \<in> set (snd ces). found_in_store db1 c e))"
      by blast+
    show ?thesis
    proof (cases r1)
      case (Some er)
      with Cons.prems(1) g Inr m have "r = Some er" by simp
      with k1 Some Cons.prems(5) show ?thesis by auto
    next
      case None
      with Cons.prems(1) g Inr m have ml: "merge_links ls fetch db1 h1 = (r, db', h')" by simp
      from Cons.IH [OF ml h1 d1 run [folded s1] Cons.prems(5)]
      have ih: "\<forall>c e. found_in_store db1 c e \<longrightarrow> found_in_store db' c e"
        "\<forall>defs \<in> set (run_batches ls fetch (site_url db) h1). \<forall>ces \<in> set defs. \<forall>c.
           fst ces = Some c \<longrightarrow> (\<forall>e \<in> set (snd ces). found_in_store db' c e)"
        by (simp_all add: s1)
      from f1 None
      have f: "\<forall>c e. found_in_store db c e \<longrightarrow> found_in_store db1 c e"
        "\<forall>ces \<in> set defs. \<forall>c. fst ces = Some c \<longrightarrow> (\<forall>e \<in> set (snd ces). found_in_store db1 c e)"
        by simp_all
      show ?thesis unfolding rb using ih f by auto
    qed
  qed
qed

lemma finish_initialize_found:
  "found_in_store db c e \<Longrightarrow> found_in_store (finish_initialize db) c e"
proof -
  have "''data/type/'' @ c \<noteq> ''metadata/stats/total_entries''" by simp
  then have "map_of (dict_set (contents db) ''metadata/stats/total_entries'' (PyInt (total_entries db + 1)))
               (''data/type/'' @ c) = map_of (contents db) (''data/type/'' @ c)"
    by (rule map_of_dict_set_other)
  then show "found_in_store db c e \<Longrightarrow> found_in_store (finish_initialize db) c e"
    by (simp add: found_in_store_def finish_initialize_def Let_def setitem_def)
qed

text \<open>
  Claim C4 as amended: when \<open>initialize\<close> completes on a store that was not initialized and
  held no data entries, as a store fresh from its constructor, the value stored under
  \<open>metadata/stats/total_entries\<close> is the number of entries stored under the keys of primary
  type \<open>data\<close>, plus the two metadata keys, plus the stats key itself. When moreover the
  store was empty, the entry cache holds entries keyed by id, and none of the lists that
  the pages yield holds the same id twice, then no stored list holds the same id twice,
  the value is the number of distinct ids under each data key, summed over the keys,
  plus three, and every entry that a page yields is found in the list stored for its
  category: an entry that a later page brings again is counted once, and none is lost.
\<close>

theorem total_entries_counts_stored:
  assumes "\<not> initialized db"
    and "data_entries db = []"
    and "initialize ev db h = (None, db1, h1)"
  shows "getitem db1 ''metadata/stats/total_entries''
           = Inr (PyInt (int (length (data_entries db1)) + 2 + 1))
         \<and> (contents db = [] \<and> heap_wf h
              \<and> list_all batch_distinct (run_batches REGISTRY_links (fetch_page ev) (site_url db) h)
            \<longrightarrow> data_lists_distinct db1
                \<and> getitem db1 ''metadata/stats/total_entries''
                    = Inr (PyInt (int (unique_per_key db1) + 2 + 1))
                \<and> (\<forall>defs \<in> set (run_batches REGISTRY_links (fetch_page ev) (site_url db) h).
                     \<forall>ces \<in> set defs. \<forall>c.
                       fst ces = Some c \<longrightarrow> (\<forall>e \<in> set (snd ces). found_in_store db1 c e)))"
proof -
  obtain ver where v: "parsed_version ev = Inr ver"
    using assms(1,3) by (cases "parsed_version ev") (simp_all add: initialize_def)
  define db3 where "db3 =
    (setitem (setitem db ''metadata/sphinx/site_url'' (PyStr (site_url db @ ''/index.html'')))
       ''metadata/sphinx/version'' (case ver of None \<Rightarrow> PyNone | Some x \<Rightarrow> PyStr x))
     \<lparr>total_entries := 2\<rparr>"
  have p1: "primary_type ''metadata/sphinx/site_url'' \<noteq> ''data''"
    and p2: "primary_type ''metadata/sphinx/version'' \<noteq> ''data''"
    by (simp_all add: primary_type_def)
  have "data_entries db3 = data_entries db"
    unfolding db3_def using data_entries_setitem_metadata [OF p1] data_entries_setitem_metadata [OF p2]
    by (simp add: data_entries_def)
  with assms(2) have i3: "total_entries db3 = 2 + int (length (data_entries db3))"
    by (simp add: db3_def)
  obtain r db4 h4 where m: "merge_links REGISTRY_links (fetch_page ev) db3 h = (r, db4, h4)"
    by (cases "merge_links REGISTRY_links (fetch_page ev) db3 h")
  from m i3 have i4: "total_entries db4 = 2 + int (length (data_entries db4))"
    by (rule merge_links_count)
  have f: "db1 = finish_initialize db4"
    using assms(1,3) v m
    by (auto simp: initialize_def Let_def db3_def split: option.splits if_splits)
  have rk: "r = None \<or> r = Some KeyError"
    using assms(1,3) v m
    by (auto simp: initialize_def Let_def db3_def split: option.splits if_splits)
  with finish_initialize_total [OF i4] f
  have total: "getitem db1 ''metadata/stats/total_entries''
                 = Inr (PyInt (int (length (data_entries db1)) + 2 + 1))"
    by simp
  have "data_lists_distinct db1
        \<and> getitem db1 ''metadata/stats/total_entries'' = Inr (PyInt (int (unique_per_key db1) + 2 + 1))
        \<and> (\<forall>defs \<in> set (run_batches REGISTRY_links (fetch_page ev) (site_url db) h).
             \<forall>ces \<in> set defs. \<forall>c.
               fst ces = Some c \<longrightarrow> (\<forall>e \<in> set (snd ces). found_in_store db1 c e))"
    if e: "contents db = []" and hw: "heap_wf h"
      and run: "list_all batch_distinct (run_batches REGISTRY_links (fetch_page ev) (site_url db) h)"
  proof -
    have d3: "data_lists_distinct db3"
      using e p1 p2
      by (simp add: db3_def setitem_def data_lists_distinct_def data_list_distinct_def)
    have s3: "site_url db3 = site_url db" by (simp add: db3_def setitem_def)
    from m hw d3 run [folded s3] have "data_lists_distinct db4" by (rule merge_links_distinct)
    then have d1: "data_lists_distinct db1" unfolding f by (rule finish_initialize_distinct)
    from merge_links_found [OF m hw d3 run [folded s3] rk]
    have "\<forall>defs \<in> set (run_batches REGISTRY_links (fetch_page ev) (site_url db) h).
            \<forall>ces \<in> set defs. \<forall>c.
              fst ces = Some c \<longrightarrow> (\<forall>e \<in> set (snd ces). found_in_store db4 c e)"
      by (simp add: s3)
    then have "\<forall>defs \<in> set (run_batches REGISTRY_links (fetch_page ev) (site_url db) h).
                 \<forall>ces \<in> set defs. \<forall>c.
                   fst ces = Some c \<longrightarrow> (\<forall>e \<in> set (snd ces). found_in_store db1 c e)"
      unfolding f using finish_initialize_found by blast
    with unique_per_key_distinct [OF d1] total d1 show ?thesis by simp
  qed
  with total show ?thesis by blast
qed

text \<open>The store of the small site is what \<open>initialize\<close> makes of it.\<close>

lemma ex_db_initialize:
  "fst (initialize ex_env (Database_init ''http://s'') empty_heap) = None
   \<and> fst (snd (initialize ex_env (Database_init ''http://s'') empty_heap)) = ex_db"
  by code_simp

text \<open>
  On the second site the role \<open>role-a\<close> of domains.html is already stored when the page is
  merged: two roles are stored, the total is five, and the entry that domains.html makes
  for \<open>role-a\<close> is found in the stored list, by its id.
\<close>

theorem total_entries_counts_stored_witness:
  "getitem (fst (snd (initialize ex2_env (Database_init ''http://s'') empty_heap)))
     ''metadata/stats/total_entries'' = Inr (PyInt 5)
   \<and> data_lists_distinct (fst (snd (initialize ex2_env (Database_init ''http://s'') empty_heap)))
   \<and> unique_per_key (fst (snd (initialize ex2_env (Database_init ''http://s'') empty_heap))) = 2
   \<and> found_in_store (fst (snd (initialize ex2_env (Database_init ''http://s'') empty_heap))) ''role''
       \<lparr>oid = 1, e_primary_type = ''id'',
        e_items = [(''id'', Some ''role-a''), (''name'', Some ''a''), (''classname'', Some []),
                   (''description'', Some ''see b''), (''since'', Some ''0.1''),
                   (''deprecated'', Some []), (''link'', Some ''http://s/domains.html#role-a'')]\<rparr>"
proof -
  let ?r = "initialize ex2_env (Database_init ''http://s'') empty_heap"
  let ?run = "run_batches REGISTRY_links (fetch_page ex2_env)
                (site_url (Database_init ''http://s'')) empty_heap"
  let ?dup = "\<lparr>oid = 1, e_primary_type = ''id'',
               e_items = [(''id'', Some ''role-a''), (''name'', Some ''a''), (''classname'', Some []),
                          (''description'', Some ''see b''), (''since'', Some ''0.1''),
                          (''deprecated'', Some []), (''link'', Some ''http://s/domains.html#role-a'')]\<rparr>"
  let ?b = "\<lparr>oid = 2, e_primary_type = ''id'',
             e_items = [(''id'', Some ''role-b''), (''name'', Some ''b''), (''classname'', Some []),
                        (''description'', Some ''A role.''), (''since'', Some ''0.1''),
                        (''deprecated'', Some []), (''link'', Some ''http://s/domains.html#role-b'')]\<rparr>"
  have a: "\<not> initialized (Database_init ''http://s'')" by (simp add: Database_init_def)
  have b: "data_entries (Database_init ''http://s'') = []"
    by (simp add: Database_init_def data_entries_def)
  have "fst ?r = None" by code_simp
  then have c: "?r = (None, fst (snd ?r), snd (snd ?r))"
    by (metis prod.collapse)
  have e: "contents (Database_init ''http://s'') = []" by (simp add: Database_init_def)
  have hw: "heap_wf empty_heap" by (simp add: heap_wf_def empty_heap_def)
  have run: "list_all batch_distinct ?run" by code_simp
  have l: "length (data_entries (fst (snd ?r))) = 2" by code_simp
  have u: "unique_per_key (fst (snd ?r)) = 2" by code_simp
  have mem: "[(Some ''role'', [?dup, ?b])] \<in> set ?run" by code_simp
  from total_entries_counts_stored [OF a b c] e hw run
  have t: "getitem (fst (snd ?r)) ''metadata/stats/total_entries''
             = Inr (PyInt (int (length (data_entries (fst (snd ?r)))) + 2 + 1))"
    and d: "data_lists_distinct (fst (snd ?r))"
    and all: "\<forall>defs \<in> set ?run. \<forall>ces \<in> set defs. \<forall>c.
                fst ces = Some c \<longrightarrow> (\<forall>e \<in> set (snd ces). found_in_store (fst (snd ?r)) c e)"
    by blast+
  from bspec [OF all mem] have "found_in_store (fst (snd ?r)) ''role'' ?dup" by simp
  with t d l u show ?thesis by simp
qed

text \<open>
  Claim C4: after \<open>initialize\<close> the value under \<open>metadata/stats/total_entries\<close> is the
  number of distinct ids among the merged entries plus three. The code removes from a
  page's entries only those equal to an entry already stored under the same key; the
  entries of the first page that brings a key are stored as they come. On the small site
  the two terms of the one list have the same id (none), both are stored and counted, and
  the total is five where the distinct ids give four.
\<close>

theorem total_entries_unique_ids_counterexample:
  "fst (initialize ex_env (Database_init ''http://s'') empty_heap) = None
   \<and> getitem (fst (snd (initialize ex_env (Database_init ''http://s'') empty_heap)))
        ''metadata/stats/total_entries'' = Inr (PyInt 5)
   \<and> spec_total_entries (fst (snd (initialize ex_env (Database_init ''http://s'') empty_heap))) = 4"
  by code_simp

section \<open>Terms that share a description\<close>

text \<open>
  Claim C9: of two terms that share one description, the first alone carrying a
  permalink, the second gets the link of the first, and the description of the first is
  \<open>see\<close> followed by the display name of the second. The code takes for the hint the
  text of the first \<open>tt\<close> child of the last term, whatever its class, where the name of
  an entry is the text of the child of class \<open>descname\<close>. On the list of the two
  functions the second term shows its module first: the first entry's description is
  \<open>see mod.\<close> where the second entry's name is \<open>f\<close>. The link of the second entry is
  that of the first.
\<close>

theorem see_hint_takes_first_tt:
  "fst (get_defs ''http://s/config.html'' (Inr [ex_fun_dl]) empty_heap) =
     Inr [(Some ''function'',
           [\<lparr>oid = 0, e_primary_type = ''id'',
              e_items = [(''id'', Some ''g''), (''name'', Some ''g''), (''classname'', Some []),
                         (''description'', Some ''see mod.''), (''since'', Some ''0.1''),
                         (''deprecated'', Some []), (''link'', Some ''http://s/config.html#g'')]\<rparr>,
            \<lparr>oid = 1, e_primary_type = ''id'',
              e_items = [(''id'', Some ''mod.f''), (''name'', Some ''f''), (''classname'', Some ''mod.''),
                         (''description'', Some ''Both do the same.''), (''since'', Some ''0.1''),
                         (''deprecated'', Some []), (''link'', Some ''http://s/config.html#g'')]\<rparr>])]"
  by code_simp

text \<open>
  The link is inherited in general: when the terms of a list are two, the first with an
  anchor and the second without, and neither id is a key of the entry cache, the list adds
  two entries under its class, the second with the link of the first.
\<close>

lemma map_of_entries_append:
  "map_of (entries_append es k e) k = Some ((case map_of es k of None \<Rightarrow> [] | Some l \<Rightarrow> l) @ [e])"
  by (induction es) auto

lemma entries_append_twice:
  "map_of (entries_append (entries_append es k e1) k e2) k
     = Some ((case map_of es k of None \<Rightarrow> [] | Some l \<Rightarrow> l) @ [e1, e2])"
  by (simp add: map_of_entries_append)

lemma second_term_inherits_link:
  assumes "findall_tag dl ''dt'' = [dt1, dt2]"
    and "find_tag dt1 ''a'' = Some a"
    and "get_attr a ''href'' = Some href"
    and "find_tag dt2 ''a'' = None"
    and "entry_classcache h (get_attr dt1 ''id'') = None"
    and "entry_classcache h (get_attr dt2 ''id'') = None"
  shows "\<exists>st' h' e1 e2.
           get_defs_dl url dl st h = (Inr st', h')
           \<and> map_of (entries st') (get_attr dl ''class'')
               = Some ((case map_of (entries st) (get_attr dl ''class'') of
                          None \<Rightarrow> [] | Some l \<Rightarrow> l) @ [e1, e2])
           \<and> map_of (e_items e1) ''id'' = Some (get_attr dt1 ''id'')
           \<and> map_of (e_items e1) ''link'' = Some (Some (url @ href))
           \<and> map_of (e_items e2) ''link'' = map_of (e_items e1) ''link''
           \<and> map_of (e_items e1) ''description''
               = Some (Some (''see '' @ py_str (findtext_tag dt2 ''tt'')))"
proof -
  define see where "see = ''see '' @ py_str (findtext_tag dt2 ''tt'')"
  define st1 where "st1 = st\<lparr>desc := see\<rparr>"
  define its1 where "its1 =
    [(''id'', get_attr dt1 ''id''), (''name'', Some (fst (tt_names (findall_tag dt1 ''tt'') ([], [])))),
     (''classname'', Some (snd (tt_names (findall_tag dt1 ''tt'') ([], [])))),
     (''description'', Some see),
     (''since'', Some (case re_search_version ''New in version '' see of Some v \<Rightarrow> v | None \<Rightarrow> ''0.1'')),
     (''deprecated'', Some (case re_search_version ''Deprecated since version '' see of Some v \<Rightarrow> v | None \<Rightarrow> [])),
     (''link'', Some (url @ href))]"
  define e1 where "e1 = \<lparr>oid = next_oid h, e_primary_type = ''id'', e_items = its1\<rparr>"
  define h1 where "h1 = h\<lparr>entry_classcache := (entry_classcache h)(Some ''id'' \<mapsto> e1),
                           next_oid := Suc (next_oid h)\<rparr>"
  define st2 where "st2 = st1\<lparr>entries := entries_append (entries st) (get_attr dl ''class'') e1,
                              last_link := url @ href, desc := see\<rparr>"
  have dl: "get_defs_dl url dl st h = get_defs_dts url dl (Suc (Suc 0)) 0 [dt1, dt2] st1 h"
    by (simp add: get_defs_dl_def assms(1) st1_def see_def)
  have E1: "Entry its1 ''id'' h = (Inr e1, h1)"
    using assms(5) by (simp add: Entry_def its1_def e1_def h1_def Let_def)
  have step1: "get_defs_dt url dl (Suc (Suc 0)) 0 dt1 st1 h = (Inr st2, h1)"
    using E1 by (simp add: get_defs_dt_def dt_link_of_def assms(2,3) Let_def its1_def st1_def st2_def)
  define d2 where "d2 = (case find_tag dl ''dd'' of None \<Rightarrow> [] | Some dd \<Rightarrow> concat (itertext dd))"
  define its2 where "its2 =
    [(''id'', get_attr dt2 ''id''), (''name'', Some (fst (tt_names (findall_tag dt2 ''tt'') ([], [])))),
     (''classname'', Some (snd (tt_names (findall_tag dt2 ''tt'') ([], [])))),
     (''description'', Some d2),
     (''since'', Some (case re_search_version ''New in version '' d2 of Some v \<Rightarrow> v | None \<Rightarrow> ''0.1'')),
     (''deprecated'', Some (case re_search_version ''Deprecated since version '' d2 of Some v \<Rightarrow> v | None \<Rightarrow> [])),
     (''link'', Some (url @ href))]"
  obtain e2 h2 where E2: "Entry its2 ''id'' h1 = (Inr e2, h2)"
    and l2: "map_of (e_items e2) ''link'' = Some (Some (url @ href))"
  proof (cases "get_attr dt2 ''id'' = Some ''id''")
    case True
    then have "Entry its2 ''id'' h1 = (Inr e1, h1)"
      by (simp add: Entry_def its2_def h1_def)
    moreover have "map_of (e_items e1) ''link'' = Some (Some (url @ href))"
      by (simp add: e1_def its1_def)
    ultimately show ?thesis by (rule that)
  next
    case False
    define e2 where "e2 = \<lparr>oid = next_oid h1, e_primary_type = ''id'', e_items = its2\<rparr>"
    from False assms(6) have "entry_classcache h1 (get_attr dt2 ''id'') = None"
      by (auto simp: h1_def)
    then have "Entry its2 ''id'' h1 =
                 (Inr e2, h1\<lparr>entry_classcache := (entry_classcache h1)(Some ''id'' \<mapsto> e2),
                            next_oid := Suc (next_oid h1)\<rparr>)"
      by (simp add: Entry_def its2_def e2_def Let_def)
    moreover have "map_of (e_items e2) ''link'' = Some (Some (url @ href))"
      by (simp add: e2_def its2_def)
    ultimately show ?thesis by (rule that)
  qed
  define st3 where "st3 = st2\<lparr>entries := entries_append (entries st2) (get_attr dl ''class'') e2,
                              last_link := url @ href, desc := d2\<rparr>"
  have ll: "last_link st2 = url @ href" by (simp add: st2_def)
  have step2: "get_defs_dt url dl (Suc (Suc 0)) (Suc 0) dt2 st2 h1 = (Inr st3, h2)"
    using E2
    by (simp add: get_defs_dt_def dt_link_of_def assms(4) Let_def its2_def ll st3_def d2_def)
  have run: "get_defs_dl url dl st h = (Inr st3, h2)"
    unfolding dl using step1 step2 by simp
  have ent: "map_of (entries st3) (get_attr dl ''class'')
               = Some ((case map_of (entries st) (get_attr dl ''class'') of
                          None \<Rightarrow> [] | Some l \<Rightarrow> l) @ [e1, e2])"
    by (simp add: st3_def st2_def entries_append_twice)
  have i1: "map_of (e_items e1) ''id'' = Some (get_attr dt1 ''id'')"
    and l1: "map_of (e_items e1) ''link'' = Some (Some (url @ href))"
    and d1: "map_of (e_items e1) ''description'' = Some (Some see)"
    by (simp_all add: e1_def its1_def)
  from run ent i1 l1 l2 d1 show ?thesis
    unfolding see_def by (intro exI [of _ st3] exI [of _ h2] exI [of _ e1] exI [of _ e2]) simp
qed

end
